theory Spec2Isabelle
  imports Complex_Main "HOL-Library.AList"
begin

section \<open>Conventions of the embedding\<close>

text \<open>
  The development embeds the scheduling engine of the repository: \<^verbatim>\<open>models.py\<close>,
  \<^verbatim>\<open>utils.py\<close>, \<^verbatim>\<open>rl_scheduler.py\<close> and the queue endpoints of
  \<^verbatim>\<open>main.py\<close>.

  \<^item> A Python \<^verbatim>\<open>float\<close> is a \<open>real\<close>: rounding is not modelled, every arithmetic
    operation is exact. A Python \<^verbatim>\<open>int\<close> is an \<open>int\<close>.
  \<^item> A \<^verbatim>\<open>datetime\<close> is a \<open>real\<close>, the number of seconds on a fixed time axis, so
    that \<^verbatim>\<open>(a - b).total_seconds()\<close> is \<open>a - b\<close>. An \<^verbatim>\<open>Optional[datetime]\<close> is a
    \<open>real option\<close>.
  \<^item> \<^verbatim>\<open>datetime.now()\<close> is the parameter \<open>now\<close> of the function that reads the
    clock: all readings made during one call are the same instant.
  \<^item> A method that mutates \<^verbatim>\<open>self\<close> returns the updated object next to its result.
\<close>

section \<open>models.py\<close>

subsection \<open>\<^verbatim>\<open>str.lower\<close>\<close>

text \<open>
  Only the comparison of \<^verbatim>\<open>risk_level.lower()\<close> with the ASCII words
  \<^verbatim>\<open>high\<close>, \<^verbatim>\<open>medium\<close> and \<^verbatim>\<open>low\<close> matters. No character outside ASCII lowers to one
  of their letters, so lowering the 26 ASCII capitals and keeping every other character
  decides these comparisons as Python does.
\<close>

definition lower_char :: "char \<Rightarrow> char" where
  "lower_char c =
     (case map_of (zip ''ABCDEFGHIJKLMNOPQRSTUVWXYZ'' ''abcdefghijklmnopqrstuvwxyz'') c of
        Some d \<Rightarrow> d
      | None \<Rightarrow> c)"

definition lower :: "string \<Rightarrow> string" where
  "lower s = map lower_char s"

subsection \<open>Data model\<close>

record VitalSigns =
  heart_rate :: int
  respiratory_rate :: int
  body_temperature :: real
  oxygen_saturation :: int
  systolic_blood_pressure :: int
  diastolic_blood_pressure :: int
  age :: int
  gender :: int
  weight :: real
  height :: real
  derived_hrv :: real
  derived_pulse_pressure :: real
  derived_bmi :: real
  derived_map :: real

record RiskAssessment =
  risk_level :: string
  vital_signs :: VitalSigns
  confidence_score :: real
  priority_score :: real
  timestamp :: "real option"
  time_factor :: real

record PatientQueue =
  patient_id :: string
  risk_assessment :: RiskAssessment
  queue_position :: int
  estimated_wait_time :: int
  rl_adjustment :: real
  rl_state :: "string option"
  rl_action :: "string option"

subsection \<open>\<^verbatim>\<open>RiskAssessment\<close>\<close>

text \<open>\<^verbatim>\<open>risk_weights\<close>, the dictionary of \<^verbatim>\<open>calculate_priority_score\<close>.\<close>

definition risk_weights :: "(string \<times> real) list" where
  "risk_weights = [(''high'', 100), (''medium'', 50), (''low'', 10)]"

text \<open>
  \<^verbatim>\<open>_calculate_time_urgency\<close>: without a timestamp the method stores the clock reading
  and returns 1.0; otherwise the elapsed minutes are divided by 10, 30 or 120.
\<close>

definition calculate_time_urgency :: "RiskAssessment \<Rightarrow> real \<Rightarrow> real \<times> RiskAssessment" where
  "calculate_time_urgency self now =
     (case timestamp self of
        None \<Rightarrow> (1, self\<lparr>timestamp := Some now\<rparr>)
      | Some ts \<Rightarrow>
          (let time_elapsed = (now - ts) / 60 in
           if lower (risk_level self) = ''high'' then (1 + time_elapsed / 10, self)
           else if lower (risk_level self) = ''medium'' then (1 + time_elapsed / 30, self)
           else (1 + time_elapsed / 120, self)))"

text \<open>\<^verbatim>\<open>_calculate_critical_vitals_factor\<close>: five tests in sequence on an accumulator.\<close>

definition calculate_critical_vitals_factor :: "RiskAssessment \<Rightarrow> real" where
  "calculate_critical_vitals_factor self =
     (let vs = vital_signs self;
          critical_factor = 0;
          critical_factor =
            (if heart_rate vs < 50 \<or> heart_rate vs > 120
             then critical_factor + 0.3 else critical_factor);
          critical_factor =
            (if systolic_blood_pressure vs < 90 \<or> systolic_blood_pressure vs > 180
             then critical_factor + 0.4 else critical_factor);
          critical_factor =
            (if oxygen_saturation vs < 90
             then critical_factor + 0.5 else critical_factor);
          critical_factor =
            (if body_temperature vs < 35 \<or> body_temperature vs > 39
             then critical_factor + 0.3 else critical_factor);
          critical_factor =
            (if respiratory_rate vs < 12 \<or> respiratory_rate vs > 25
             then critical_factor + 0.2 else critical_factor)
      in min critical_factor 1)"

text \<open>
  \<^verbatim>\<open>calculate_priority_score\<close>: the score is stored in \<^verbatim>\<open>self.priority_score\<close> and
  returned.
\<close>

definition calculate_priority_score :: "RiskAssessment \<Rightarrow> real \<Rightarrow> real \<times> RiskAssessment" where
  "calculate_priority_score self now =
     (let base_score =
            (case map_of risk_weights (lower (risk_level self)) of
               Some w \<Rightarrow> w | None \<Rightarrow> 10);
          confidence_factor = confidence_score self;
          (time_urgency, self) = calculate_time_urgency self now;
          age_factor = min (real_of_int (age (vital_signs self)) / 80) 1.5;
          critical_factor = calculate_critical_vitals_factor self;
          priority = base_score * confidence_factor * time_urgency
                     * (1 + age_factor) * (1 + critical_factor)
      in (priority, self\<lparr>priority_score := priority\<rparr>))"

subsection \<open>\<^verbatim>\<open>PatientQueue\<close>\<close>

definition get_final_priority :: "PatientQueue \<Rightarrow> real \<Rightarrow> real \<times> PatientQueue" where
  "get_final_priority self now =
     (let (base_priority, ra) = calculate_priority_score (risk_assessment self) now;
          self = self\<lparr>risk_assessment := ra\<rparr>
      in if lower (risk_level (risk_assessment self)) = ''low''
         then (let rl_boost = rl_adjustment self in (base_priority + rl_boost, self))
         else (base_priority, self))"

definition update_time_factor :: "PatientQueue \<Rightarrow> real \<Rightarrow> PatientQueue" where
  "update_time_factor self now =
     (let (u, ra) = calculate_time_urgency (risk_assessment self) now
      in self\<lparr>risk_assessment := ra\<lparr>time_factor := u\<rparr>\<rparr>)"

section \<open>utils.py\<close>

text \<open>\<^verbatim>\<open>base_time_per_patient\<close>, the dictionary of \<^verbatim>\<open>calculate_estimated_wait_time\<close>.\<close>

definition base_time_per_patient :: "(string \<times> int) list" where
  "base_time_per_patient = [(''high'', 15), (''medium'', 20), (''low'', 25)]"

text \<open>\<^verbatim>\<open>calculate_estimated_wait_time\<close>; \<open>position\<close> is the 0-based index in the queue.\<close>

definition calculate_estimated_wait_time :: "PatientQueue \<Rightarrow> int \<Rightarrow> int" where
  "calculate_estimated_wait_time patient position =
     (let risk_level = lower (risk_level (risk_assessment patient));
          base_time =
            (case map_of base_time_per_patient risk_level of Some t \<Rightarrow> t | None \<Rightarrow> 20);
          estimated_wait = position * base_time;
          estimated_wait =
            (if risk_level = ''high'' then max 0 (estimated_wait - 10) else estimated_wait)
      in estimated_wait)"

section \<open>rl\_scheduler.py\<close>

subsection \<open>Python values used by the scheduler\<close>

text \<open>The exceptions the modelled code can raise.\<close>

datatype py_error =
    KeyError string
  | ValueError
  | AttributeError
  | HTTPException int string

text \<open>\<^verbatim>\<open>int(x)\<close> on a float truncates towards zero; \<^verbatim>\<open>str(n)\<close> prints decimal digits.\<close>

definition py_int :: "real \<Rightarrow> int" where
  "py_int x = (if 0 \<le> x then \<lfloor>x\<rfloor> else \<lceil>x\<rceil>)"

definition digit_char :: "nat \<Rightarrow> char" where
  "digit_char d = ''0123456789'' ! d"

fun str_nat :: "nat \<Rightarrow> string" where
  "str_nat n = (if n < 10 then [digit_char n] else str_nat (n div 10) @ [digit_char (n mod 10)])"

declare str_nat.simps [simp del]

definition str_int :: "int \<Rightarrow> string" where
  "str_int i = (if i < 0 then CHR ''-'' # str_nat (nat (- i)) else str_nat (nat i))"

text \<open>
  \<^verbatim>\<open>datetime.now().hour\<close>: the clock counts seconds from a midnight, time zone offset
  zero.
\<close>

definition hour_of :: "real \<Rightarrow> int" where
  "hour_of now = \<lfloor>now / 3600\<rfloor> mod 24"

text \<open>
  The global generator of \<^verbatim>\<open>numpy.random\<close> is a stream of draws. One call of
  \<^verbatim>\<open>choose_action\<close> takes the head of the stream: the value of \<^verbatim>\<open>random()\<close> and the
  index that \<^verbatim>\<open>choice\<close> picks should the action be explored.
\<close>

type_synonym rng = "nat \<Rightarrow> real \<times> nat"

definition rng_next :: "rng \<Rightarrow> rng" where
  "rng_next g = (\<lambda>n. g (Suc n))"

text \<open>
  A Python dictionary is an association list in insertion order:
  \<^verbatim>\<open>d[k] = v\<close> is \<^const>\<open>AList.update\<close>, which overwrites in place or appends.
\<close>

type_synonym q_row = "(string \<times> real) list"
type_synonym q_table = "(string \<times> q_row) list"

text \<open>What \<^verbatim>\<open>q_table.json\<close> holds: no file, a file that fails to load, or a table.\<close>

datatype q_file = NoFile | Unreadable | Saved q_table

record queue_info =
  total_patients :: int
  high_risk_count :: int
  medium_risk_count :: int
  low_risk_count :: int
  average_confidence :: real

text \<open>The outcome dictionary of a feedback; an absent key is \<open>None\<close>.\<close>

record outcome =
  actual_wait_time :: "int option"
  satisfaction_score :: "real option"
  resource_utilization :: "real option"

subsection \<open>\<^verbatim>\<open>PatientSchedulerRL\<close>\<close>

record PatientSchedulerRL =
  learning_rate :: real
  discount_factor :: real
  epsilon :: real
  epsilon_decay :: real
  min_epsilon :: real
  q_table :: q_table

definition actions :: "(string \<times> int) list" where
  "actions = [(''immediate'', 0), (''delay_15'', 1), (''delay_30'', 2),
              (''delay_60'', 3), (''delay_120'', 4)]"

definition load_q_table :: "PatientSchedulerRL \<Rightarrow> q_file \<Rightarrow> PatientSchedulerRL" where
  "load_q_table self file =
     (case file of
        NoFile \<Rightarrow> self
      | Unreadable \<Rightarrow> self\<lparr>q_table := []\<rparr>
      | Saved t \<Rightarrow> self\<lparr>q_table := t\<rparr>)"

definition save_q_table :: "PatientSchedulerRL \<Rightarrow> q_file" where
  "save_q_table self = Saved (q_table self)"

text \<open>\<^verbatim>\<open>PatientSchedulerRL()\<close> with the default arguments of \<^verbatim>\<open>__init__\<close>.\<close>

definition init_scheduler :: "q_file \<Rightarrow> PatientSchedulerRL" where
  "init_scheduler file =
     load_q_table \<lparr>learning_rate = 0.1, discount_factor = 0.95, epsilon = 0.1,
                   epsilon_decay = 0.995, min_epsilon = 0.01, q_table = []\<rparr> file"

definition get_state :: "PatientQueue \<Rightarrow> queue_info \<Rightarrow> real \<Rightarrow> string" where
  "get_state patient qi now =
     (let risk_level = lower (risk_level (risk_assessment patient));
          confidence_bucket = py_int (confidence_score (risk_assessment patient) * 10);
          queue_length = min (total_patients qi) 10;
          high_risk_count = min (high_risk_count qi) 5;
          hour = hour_of now;
          time_bucket = (if 6 \<le> hour \<and> hour < 12 then ''morning''
                         else if 12 \<le> hour \<and> hour < 18 then ''afternoon''
                         else ''evening'')
      in risk_level @ ''_'' @ str_int confidence_bucket @ ''_'' @ str_int queue_length
         @ ''_'' @ str_int high_risk_count @ ''_'' @ time_bucket)"

text \<open>\<^verbatim>\<open>{a: 0.0 for a in self.actions.keys()}\<close> and the guard that stores it.\<close>

definition fresh_row :: q_row where
  "fresh_row = map (\<lambda>a. (a, 0)) (map fst actions)"

definition ensure_state :: "q_table \<Rightarrow> string \<Rightarrow> q_table" where
  "ensure_state qt state =
     (case map_of qt state of None \<Rightarrow> AList.update state fresh_row qt | Some row \<Rightarrow> qt)"

text \<open>
  \<^verbatim>\<open>max(d, key=d.get)\<close> keeps the first key of the largest value and raises
  \<^verbatim>\<open>ValueError\<close> on an empty dictionary; \<^verbatim>\<open>max(d.values())\<close> likewise.
\<close>

fun max_by :: "string \<times> real \<Rightarrow> q_row \<Rightarrow> string \<times> real" where
  "max_by best [] = best"
| "max_by best (x # xs) = max_by (if snd x > snd best then x else best) xs"

definition argmax_key :: "q_row \<Rightarrow> py_error + string" where
  "argmax_key row = (case row of [] \<Rightarrow> Inl ValueError | x # xs \<Rightarrow> Inr (fst (max_by x xs)))"

definition max_value :: "q_row \<Rightarrow> py_error + real" where
  "max_value row = (case row of [] \<Rightarrow> Inl ValueError | x # xs \<Rightarrow> Inr (snd (max_by x xs)))"

definition choose_action ::
  "PatientSchedulerRL \<Rightarrow> string \<Rightarrow> rng \<Rightarrow> py_error + (string \<times> PatientSchedulerRL \<times> rng)" where
  "choose_action self state g =
     (let self = self\<lparr>q_table := ensure_state (q_table self) state\<rparr>;
          (u, k) = g 0;
          g = rng_next g
      in if u < epsilon self
         then Inr (map fst actions ! (k mod length actions), self, g)
         else (case map_of (q_table self) state of
                 None \<Rightarrow> Inl (KeyError state)
               | Some row \<Rightarrow>
                   (case argmax_key row of
                      Inl e \<Rightarrow> Inl e
                    | Inr a \<Rightarrow> Inr (a, self, g))))"

definition get_reward :: "string \<Rightarrow> PatientQueue \<Rightarrow> outcome \<Rightarrow> real" where
  "get_reward action patient oc =
     (let base_reward = 0;
          wait_time_actual = (case actual_wait_time oc of Some w \<Rightarrow> w | None \<Rightarrow> 0);
          patient_satisfaction = (case satisfaction_score oc of Some x \<Rightarrow> x | None \<Rightarrow> 0.5);
          resource_util = (case resource_utilization oc of Some x \<Rightarrow> x | None \<Rightarrow> 0.5);
          base_reward =
            (if wait_time_actual > 120 then base_reward - 10
             else if wait_time_actual > 60 then base_reward - 5
             else if wait_time_actual > 30 then base_reward - 2
             else base_reward);
          base_reward = base_reward + patient_satisfaction * 10;
          base_reward = base_reward + resource_util * 5;
          base_reward =
            (if lower (risk_level (risk_assessment patient)) = ''low''
             then (if action \<in> set [''delay_30'', ''delay_60''] \<and> patient_satisfaction > 0.7
                   then base_reward + 3
                   else if action = ''immediate'' \<and> resource_util < 0.3
                   then base_reward - 2
                   else base_reward)
             else base_reward)
      in base_reward)"

text \<open>
  \<^verbatim>\<open>update_q_value\<close>. The row of \<open>state\<close> is read after both guards ran; a missing
  action raises \<^verbatim>\<open>KeyError\<close> at \<^verbatim>\<open>self.q_table[state][action]\<close>.
\<close>

definition update_q_value ::
  "PatientSchedulerRL \<Rightarrow> string \<Rightarrow> string \<Rightarrow> real \<Rightarrow> string \<Rightarrow> py_error + PatientSchedulerRL" where
  "update_q_value self state action reward next_state =
     (let qt = ensure_state (q_table self) state;
          qt = ensure_state qt next_state
      in case map_of qt state of
           None \<Rightarrow> Inl (KeyError state)
         | Some row \<Rightarrow>
             (case map_of row action of
                None \<Rightarrow> Inl (KeyError action)
              | Some current_q \<Rightarrow>
                  (case map_of qt next_state of
                     None \<Rightarrow> Inl (KeyError next_state)
                   | Some next_row \<Rightarrow>
                       (case max_value next_row of
                          Inl e \<Rightarrow> Inl e
                        | Inr max_next_q \<Rightarrow>
                            (let new_q = current_q + learning_rate self
                                   * (reward + discount_factor self * max_next_q - current_q);
                                 qt = AList.update state (AList.update action new_q row) qt
                             in Inr (self\<lparr>q_table := qt,
                                      epsilon := max (min_epsilon self)
                                                     (epsilon self * epsilon_decay self)\<rparr>))))))"

definition action_effects :: "(string \<times> int \<times> real) list" where
  "action_effects = [(''immediate'', 0, 10), (''delay_15'', 15, 2), (''delay_30'', 30, 0),
                     (''delay_60'', 60, - 3), (''delay_120'', 120, - 8)]"

definition apply_action_to_patient :: "string \<Rightarrow> PatientQueue \<Rightarrow> PatientQueue" where
  "apply_action_to_patient action patient =
     (let effect = (case map_of action_effects action of Some e \<Rightarrow> e | None \<Rightarrow> (30, 0))
      in patient\<lparr>estimated_wait_time := estimated_wait_time patient + fst effect,
                 rl_adjustment := snd effect\<rparr>)"

text \<open>The loop of \<^verbatim>\<open>schedule_patients_with_rl\<close> over the patients.\<close>

fun rl_loop ::
  "PatientSchedulerRL \<Rightarrow> queue_info \<Rightarrow> real \<Rightarrow> PatientQueue list \<Rightarrow> rng
     \<Rightarrow> py_error + (PatientQueue list \<times> PatientSchedulerRL \<times> rng)" where
  "rl_loop self qi now [] g = Inr ([], self, g)"
| "rl_loop self qi now (patient # rest) g =
     (if lower (risk_level (risk_assessment patient)) = ''low''
      then (let state = get_state patient qi now
            in case choose_action self state g of
                 Inl e \<Rightarrow> Inl e
               | Inr (action, self, g) \<Rightarrow>
                   (let patient = apply_action_to_patient action patient;
                        patient = patient\<lparr>rl_state := Some state, rl_action := Some action\<rparr>
                    in case rl_loop self qi now rest g of
                         Inl e \<Rightarrow> Inl e
                       | Inr (scheduled, self, g) \<Rightarrow> Inr (patient # scheduled, self, g)))
      else (case rl_loop self qi now rest g of
              Inl e \<Rightarrow> Inl e
            | Inr (scheduled, self, g) \<Rightarrow> Inr (patient # scheduled, self, g)))"

text \<open>
  \<^verbatim>\<open>list.sort(key=..., reverse=True)\<close>: the key is computed once for every element, in
  list order, and each call of \<^verbatim>\<open>get_final_priority\<close> updates its patient; the sort is
  stable, also when reversed, so it is the stable ascending sort on the negated key.
\<close>

definition sort_by_final_priority :: "real \<Rightarrow> PatientQueue list \<Rightarrow> PatientQueue list" where
  "sort_by_final_priority now ps =
     map snd (sort_key (\<lambda>kp. - fst kp) (map (\<lambda>p. get_final_priority p now) ps))"

definition assign_positions :: "PatientQueue list \<Rightarrow> PatientQueue list" where
  "assign_positions ps =
     map (\<lambda>(i, patient). patient\<lparr>queue_position := int i + 1\<rparr>) (enumerate 0 ps)"

definition schedule_patients_with_rl ::
  "PatientSchedulerRL \<Rightarrow> PatientQueue list \<Rightarrow> queue_info \<Rightarrow> real \<Rightarrow> rng
     \<Rightarrow> py_error + (PatientQueue list \<times> PatientSchedulerRL \<times> rng)" where
  "schedule_patients_with_rl self patients qi now g =
     (case rl_loop self qi now patients g of
        Inl e \<Rightarrow> Inl e
      | Inr (scheduled_patients, self, g) \<Rightarrow>
          Inr (assign_positions (sort_by_final_priority now scheduled_patients), self, g))"

text \<open>\<^verbatim>\<open>provide_feedback\<close>: the body is \<^verbatim>\<open>pass\<close>.\<close>

definition provide_feedback :: "PatientSchedulerRL \<Rightarrow> string \<Rightarrow> outcome \<Rightarrow> PatientSchedulerRL" where
  "provide_feedback self pid oc = self"

subsection \<open>\<^verbatim>\<open>PriorityManager\<close>\<close>

record PriorityManager =
  rl_scheduler :: PatientSchedulerRL
  patient_history :: "(string \<times> outcome \<times> real) list"

definition init_manager :: "q_file \<Rightarrow> PriorityManager" where
  "init_manager file = \<lparr>rl_scheduler = init_scheduler file, patient_history = []\<rparr>"

definition count_risk :: "string \<Rightarrow> PatientQueue list \<Rightarrow> int" where
  "count_risk r patients =
     int (length (filter (\<lambda>p. lower (risk_level (risk_assessment p)) = r) patients))"

definition make_queue_info :: "PatientQueue list \<Rightarrow> queue_info" where
  "make_queue_info patients =
     \<lparr>total_patients = int (length patients),
      high_risk_count = count_risk ''high'' patients,
      medium_risk_count = count_risk ''medium'' patients,
      low_risk_count = count_risk ''low'' patients,
      average_confidence =
        (if patients \<noteq> []
         then sum_list (map (\<lambda>p. confidence_score (risk_assessment p)) patients)
              / real (length patients)
         else 0)\<rparr>"

definition calculate_dynamic_priority ::
  "PriorityManager \<Rightarrow> PatientQueue list \<Rightarrow> real \<Rightarrow> rng
     \<Rightarrow> py_error + (PatientQueue list \<times> PriorityManager \<times> rng)" where
  "calculate_dynamic_priority self patients now g =
     (let qi = make_queue_info patients;
          patients = map (\<lambda>p. p\<lparr>risk_assessment :=
                               snd (calculate_priority_score (risk_assessment p) now)\<rparr>) patients
      in case schedule_patients_with_rl (rl_scheduler self) patients qi now g of
           Inl e \<Rightarrow> Inl e
         | Inr (scheduled_patients, sched, g) \<Rightarrow>
             Inr (scheduled_patients, self\<lparr>rl_scheduler := sched\<rparr>, g))"

definition get_next_patient ::
  "PriorityManager \<Rightarrow> PatientQueue list \<Rightarrow> real \<Rightarrow> rng
     \<Rightarrow> py_error + (PatientQueue option \<times> PriorityManager \<times> rng)" where
  "get_next_patient self patients now g =
     (if patients = [] then Inr (None, self, g)
      else case calculate_dynamic_priority self patients now g of
             Inl e \<Rightarrow> Inl e
           | Inr (updated_patients, self, g) \<Rightarrow>
               Inr (case updated_patients of [] \<Rightarrow> None | p # ps \<Rightarrow> Some p, self, g))"

text \<open>
  \<^verbatim>\<open>update_with_outcome\<close>; the second component is the content of
  \<^verbatim>\<open>q_table.json\<close> afterwards.
\<close>

definition update_with_outcome ::
  "PriorityManager \<Rightarrow> string \<Rightarrow> outcome \<Rightarrow> real \<Rightarrow> q_file \<Rightarrow> PriorityManager \<times> q_file" where
  "update_with_outcome self pid oc now file =
     (let self = self\<lparr>rl_scheduler := provide_feedback (rl_scheduler self) pid oc\<rparr>;
          self = self\<lparr>patient_history := patient_history self @ [(pid, oc, now)]\<rparr>
      in if length (patient_history self) mod 10 = 0
         then (self, save_q_table (rl_scheduler self))
         else (self, file))"

section \<open>utils.py: the queue\<close>

text \<open>
  \<^verbatim>\<open>manage_patient_queue\<close>. The identifier is
  \<^verbatim>\<open>f"patient_{i+1}_{int(assessment.timestamp.timestamp())}"\<close>; an assessment without a
  timestamp raises \<^verbatim>\<open>AttributeError\<close> there. The manager is local to the call.
\<close>

definition make_patient_id :: "nat \<Rightarrow> real \<Rightarrow> string" where
  "make_patient_id i ts = ''patient_'' @ str_int (int i + 1) @ ''_'' @ str_int (py_int ts)"

fun make_queue_items :: "nat \<Rightarrow> RiskAssessment list \<Rightarrow> py_error + PatientQueue list" where
  "make_queue_items i [] = Inr []"
| "make_queue_items i (assessment # rest) =
     (case timestamp assessment of
        None \<Rightarrow> Inl AttributeError
      | Some ts \<Rightarrow>
          (case make_queue_items (Suc i) rest of
             Inl e \<Rightarrow> Inl e
           | Inr items \<Rightarrow>
               Inr (\<lparr>patient_id = make_patient_id i ts, risk_assessment = assessment,
                     queue_position = 0, estimated_wait_time = 0, rl_adjustment = 0,
                     rl_state = None, rl_action = None\<rparr> # items)))"

definition update_positions_and_waits :: "PatientQueue list \<Rightarrow> PatientQueue list" where
  "update_positions_and_waits sorted_queue =
     map (\<lambda>(i, patient).
            patient\<lparr>queue_position := int i + 1,
                    estimated_wait_time := calculate_estimated_wait_time patient (int i)\<rparr>)
         (enumerate 0 sorted_queue)"

definition manage_patient_queue ::
  "RiskAssessment list \<Rightarrow> q_file \<Rightarrow> real \<Rightarrow> rng \<Rightarrow> py_error + (PatientQueue list \<times> rng)" where
  "manage_patient_queue assessments file now g =
     (let priority_manager = init_manager file
      in case make_queue_items 0 assessments of
           Inl e \<Rightarrow> Inl e
         | Inr patient_queue \<Rightarrow>
             (case calculate_dynamic_priority priority_manager patient_queue now g of
                Inl e \<Rightarrow> Inl e
              | Inr (sorted_queue, priority_manager, g) \<Rightarrow>
                  Inr (update_positions_and_waits sorted_queue, g)))"

section \<open>main.py: the queue endpoints\<close>

record PatientQueueResponse =
  r_patient_id :: string
  r_risk_level :: string
  r_confidence_score :: real
  r_priority_score :: real
  r_queue_position :: int
  r_estimated_wait_time :: int
  r_timestamp :: "real option"

definition make_response :: "PatientQueue \<Rightarrow> real \<Rightarrow> PatientQueueResponse" where
  "make_response patient now =
     \<lparr>r_patient_id = patient_id patient,
      r_risk_level = risk_level (risk_assessment patient),
      r_confidence_score = confidence_score (risk_assessment patient),
      r_priority_score = fst (get_final_priority patient now),
      r_queue_position = queue_position patient,
      r_estimated_wait_time = estimated_wait_time patient,
      r_timestamp = timestamp (risk_assessment patient)\<rparr>"

text \<open>
  The stored assessments are the objects held by the queue entries, so every scoring call
  made while the queue is built has written their \<^verbatim>\<open>priority_score\<close>.
\<close>

definition rescored :: "real \<Rightarrow> RiskAssessment list \<Rightarrow> RiskAssessment list" where
  "rescored now assessments = map (\<lambda>a. snd (calculate_priority_score a now)) assessments"

text \<open>\<^verbatim>\<open>GET /queue/\<close>: the responses, the stored assessments and the generator.\<close>

definition get_patient_queue ::
  "RiskAssessment list \<Rightarrow> q_file \<Rightarrow> real \<Rightarrow> rng
     \<Rightarrow> py_error + (PatientQueueResponse list \<times> RiskAssessment list \<times> rng)" where
  "get_patient_queue patient_assessments file now g =
     (if patient_assessments = [] then Inr ([], patient_assessments, g)
      else case manage_patient_queue patient_assessments file now g of
             Inl e \<Rightarrow> Inl e
           | Inr (current_queue, g) \<Rightarrow>
               Inr (map (\<lambda>patient. make_response patient now) current_queue,
                    rescored now patient_assessments, g))"

text \<open>
  \<^verbatim>\<open>GET /queue/next/\<close>, the function \<^verbatim>\<open>get_next_patient\<close> of \<^verbatim>\<open>main.py\<close>: the queue
  is built, a second manager schedules it again, and every stored assessment with the
  timestamp of the chosen patient is dropped.
\<close>

definition main_get_next_patient ::
  "RiskAssessment list \<Rightarrow> q_file \<Rightarrow> real \<Rightarrow> rng
     \<Rightarrow> py_error + (PatientQueueResponse \<times> RiskAssessment list \<times> rng)" where
  "main_get_next_patient patient_assessments file now g =
     (if patient_assessments = [] then Inl (HTTPException 404 ''No patients in queue'')
      else case manage_patient_queue patient_assessments file now g of
             Inl e \<Rightarrow> Inl e
           | Inr (current_queue, g) \<Rightarrow>
               (case get_next_patient (init_manager file) current_queue now g of
                  Inl e \<Rightarrow> Inl e
                | Inr (None, priority_manager, g) \<Rightarrow>
                    Inl (HTTPException 404 ''No patients available'')
                | Inr (Some next_patient, priority_manager, g) \<Rightarrow>
                    Inr (make_response next_patient now,
                         filter (\<lambda>assessment.
                                   timestamp assessment \<noteq> timestamp (risk_assessment next_patient))
                                (rescored now patient_assessments),
                         g)))"

text \<open>\<^verbatim>\<open>DELETE /queue/clear/\<close>: the count removed and the emptied store.\<close>

definition clear_queue :: "RiskAssessment list \<Rightarrow> nat \<times> RiskAssessment list" where
  "clear_queue patient_assessments = (length patient_assessments, [])"

section \<open>Reference definitions and concrete inputs\<close>

text \<open>
  The critical-vitals factor as the specification words it: the sum of the five indicator
  penalties, capped at 1.
\<close>

definition spec_critical_factor :: "VitalSigns \<Rightarrow> real" where
  "spec_critical_factor vs =
     min ((if heart_rate vs < 50 \<or> heart_rate vs > 120 then 0.3 else 0)
        + (if systolic_blood_pressure vs < 90 \<or> systolic_blood_pressure vs > 180 then 0.4 else 0)
        + (if oxygen_saturation vs < 90 then 0.5 else 0)
        + (if body_temperature vs < 35 \<or> body_temperature vs > 39 then 0.3 else 0)
        + (if respiratory_rate vs < 12 \<or> respiratory_rate vs > 25 then 0.2 else 0)) 1"

text \<open>
  The minutes since the creation of an assessment; an assessment without a timestamp is
  created by the reading itself.
\<close>

definition elapsed_minutes :: "RiskAssessment \<Rightarrow> real \<Rightarrow> real" where
  "elapsed_minutes a now = (case timestamp a of None \<Rightarrow> 0 | Some ts \<Rightarrow> (now - ts) / 60)"

text \<open>Assessments and queue entries on which the theorems are evaluated.\<close>

definition vs_all_critical :: VitalSigns where
  "vs_all_critical = \<lparr>heart_rate = 130, respiratory_rate = 30, body_temperature = 40,
     oxygen_saturation = 85, systolic_blood_pressure = 190, diastolic_blood_pressure = 100,
     age = 40, gender = 1, weight = 70, height = 1.75, derived_hrv = 0.1,
     derived_pulse_pressure = 90, derived_bmi = 22.9, derived_map = 130\<rparr>"

definition ra_all_critical :: RiskAssessment where
  "ra_all_critical = \<lparr>risk_level = ''High'', vital_signs = vs_all_critical,
     confidence_score = 0.9, priority_score = 0, timestamp = Some 0, time_factor = 1\<rparr>"

definition vs_plain :: VitalSigns where
  "vs_plain = \<lparr>heart_rate = 70, respiratory_rate = 16, body_temperature = 36.8,
     oxygen_saturation = 98, systolic_blood_pressure = 120, diastolic_blood_pressure = 80,
     age = 40, gender = 0, weight = 70, height = 1.75, derived_hrv = 0.1,
     derived_pulse_pressure = 40, derived_bmi = 22.9, derived_map = 93\<rparr>"

definition ra_low_waiting :: RiskAssessment where
  "ra_low_waiting = \<lparr>risk_level = ''Low'', vital_signs = vs_plain,
     confidence_score = 0.7, priority_score = 0, timestamp = Some 0, time_factor = 1\<rparr>"

definition ra_negative_age :: RiskAssessment where
  "ra_negative_age = \<lparr>risk_level = ''High'', vital_signs = vs_plain\<lparr>age := - 160\<rparr>,
     confidence_score = 0.5, priority_score = 0, timestamp = Some 0, time_factor = 1\<rparr>"

definition ra_high_plain :: RiskAssessment where
  "ra_high_plain = \<lparr>risk_level = ''High'', vital_signs = vs_plain,
     confidence_score = 0.9, priority_score = 0, timestamp = Some 0, time_factor = 1\<rparr>"

definition pq_unrecognised :: PatientQueue where
  "pq_unrecognised = \<lparr>patient_id = ''patient_1_0'',
     risk_assessment = \<lparr>risk_level = ''Critical'', vital_signs = vs_plain,
       confidence_score = 0.8, priority_score = 0, timestamp = Some 0, time_factor = 1\<rparr>,
     queue_position = 0, estimated_wait_time = 0, rl_adjustment = 0,
     rl_state = None, rl_action = None\<rparr>"

text \<open>
  Reading \<open>Q(state, action)\<close>, an unknown state or action read as 0; \<open>n\<close> updates with
  the same arguments; and the value of \<open>Q(state, action)\<close> after \<open>n\<close> updates whose next
  state is the state itself, \<open>None\<close> when one of them raises.
\<close>

definition q_value :: "PatientSchedulerRL \<Rightarrow> string \<Rightarrow> string \<Rightarrow> real" where
  "q_value self state action =
     (case map_of (q_table self) state of
        None \<Rightarrow> 0
      | Some row \<Rightarrow> (case map_of row action of None \<Rightarrow> 0 | Some v \<Rightarrow> v))"

fun repeat_update ::
  "nat \<Rightarrow> PatientSchedulerRL \<Rightarrow> string \<Rightarrow> string \<Rightarrow> real \<Rightarrow> string \<Rightarrow> py_error + PatientSchedulerRL" where
  "repeat_update 0 self state action reward next_state = Inr self"
| "repeat_update (Suc n) self state action reward next_state =
     (case update_q_value self state action reward next_state of
        Inl e \<Rightarrow> Inl e
      | Inr self \<Rightarrow> repeat_update n self state action reward next_state)"

definition q_seq :: "PatientSchedulerRL \<Rightarrow> string \<Rightarrow> string \<Rightarrow> real \<Rightarrow> nat \<Rightarrow> real option" where
  "q_seq self state action reward n =
     (case repeat_update n self state action reward state of
        Inl e \<Rightarrow> None
      | Inr self' \<Rightarrow> Some (q_value self' state action))"

text \<open>A scheduler whose table already values another action of the state at 1000.\<close>

definition sched_prepopulated :: PatientSchedulerRL where
  "sched_prepopulated = (init_scheduler NoFile)
     \<lparr>q_table := [(''s'', [(''immediate'', 0), (''delay_15'', 1000), (''delay_30'', 0),
                            (''delay_60'', 0), (''delay_120'', 0)])]\<rparr>"

text \<open>
  The sort key of an entry, and the order of two entries by creation time; the latter
  holds only between entries that both have a timestamp.
\<close>

definition final_priority :: "real \<Rightarrow> PatientQueue \<Rightarrow> real" where
  "final_priority now p = fst (get_final_priority p now)"

definition created_not_after :: "PatientQueue \<Rightarrow> PatientQueue \<Rightarrow> bool" where
  "created_not_after p q =
     (case (timestamp (risk_assessment p), timestamp (risk_assessment q)) of
        (Some a, Some b) \<Rightarrow> a \<le> b
      | _ \<Rightarrow> False)"

text \<open>
  The end-to-end scenario of the specification: a high, a medium and a low risk patient
  admitted at the same instant; a generator that never explores; and the columns of a
  queue that the theorems below compare.
\<close>

definition vs_age :: "int \<Rightarrow> VitalSigns" where
  "vs_age n = \<lparr>heart_rate = 70, respiratory_rate = 16, body_temperature = 36.8,
     oxygen_saturation = 98, systolic_blood_pressure = 120, diastolic_blood_pressure = 80,
     age = n, gender = 0, weight = 70, height = 1.75, derived_hrv = 0.1,
     derived_pulse_pressure = 40, derived_bmi = 22.9, derived_map = 93\<rparr>"

definition ra_scenario :: "RiskAssessment list" where
  "ra_scenario =
     [\<lparr>risk_level = ''High'', vital_signs = vs_age 65, confidence_score = 0.9,
       priority_score = 0, timestamp = Some 0, time_factor = 1\<rparr>,
      \<lparr>risk_level = ''Medium'', vital_signs = vs_age 75, confidence_score = 0.8,
       priority_score = 0, timestamp = Some 0, time_factor = 1\<rparr>,
      \<lparr>risk_level = ''Low'', vital_signs = vs_age 25, confidence_score = 0.7,
       priority_score = 0, timestamp = Some 0, time_factor = 1\<rparr>]"

definition rng_greedy :: rng where
  "rng_greedy = (\<lambda>n. (1, 0))"

definition queue_view ::
  "py_error + (PatientQueue list \<times> rng) \<Rightarrow> py_error + (string \<times> string \<times> int \<times> int) list" where
  "queue_view r =
     (case r of
        Inl e \<Rightarrow> Inl e
      | Inr (q, g) \<Rightarrow>
          Inr (map (\<lambda>p. (patient_id p, risk_level (risk_assessment p), queue_position p,
                          estimated_wait_time p)) q))"

text \<open>
  Two medium-risk entries of equal final priority (confidence 0), created ten minutes
  apart, and the columns of a schedule.
\<close>

definition pq_tie_a :: PatientQueue where
  "pq_tie_a = \<lparr>patient_id = ''patient_1_0'',
     risk_assessment = \<lparr>risk_level = ''Medium'', vital_signs = vs_age 40,
       confidence_score = 0, priority_score = 0, timestamp = Some 0, time_factor = 1\<rparr>,
     queue_position = 0, estimated_wait_time = 0, rl_adjustment = 0,
     rl_state = None, rl_action = None\<rparr>"

definition pq_tie_b :: PatientQueue where
  "pq_tie_b = \<lparr>patient_id = ''patient_2_600'',
     risk_assessment = \<lparr>risk_level = ''Medium'', vital_signs = vs_age 40,
       confidence_score = 0, priority_score = 0, timestamp = Some 600, time_factor = 1\<rparr>,
     queue_position = 0, estimated_wait_time = 0, rl_adjustment = 0,
     rl_state = None, rl_action = None\<rparr>"

definition schedule_view ::
  "real \<Rightarrow> py_error + (PatientQueue list \<times> PatientSchedulerRL \<times> rng)
     \<Rightarrow> py_error + (string \<times> int \<times> real option \<times> real) list" where
  "schedule_view now r =
     (case r of
        Inl e \<Rightarrow> Inl e
      | Inr (res, self, g) \<Rightarrow>
          Inr (map (\<lambda>p. (patient_id p, queue_position p, timestamp (risk_assessment p),
                          final_priority now p)) res))"

definition schedule_entries ::
  "py_error + (PatientQueue list \<times> PatientSchedulerRL \<times> rng) \<Rightarrow> PatientQueue list" where
  "schedule_entries r = (case r of Inl e \<Rightarrow> [] | Inr (res, self, g) \<Rightarrow> res)"


text \<open>
  The entries of a queue result (none when the call raised), further columns of a queue,
  and a low and a high risk assessment with the same confidence, vitals and creation
  time.
\<close>

definition queue_entries :: "py_error + (PatientQueue list \<times> rng) \<Rightarrow> PatientQueue list" where
  "queue_entries r = (case r of Inl e \<Rightarrow> [] | Inr (q, g) \<Rightarrow> q)"

definition queue_columns ::
  "py_error + (PatientQueue list \<times> rng)
     \<Rightarrow> py_error + (string \<times> real \<times> VitalSigns \<times> real option \<times> int) list" where
  "queue_columns r =
     (case r of
        Inl e \<Rightarrow> Inl e
      | Inr (q, g) \<Rightarrow>
          Inr (map (\<lambda>p. (lower (risk_level (risk_assessment p)),
                          confidence_score (risk_assessment p), vital_signs (risk_assessment p),
                          timestamp (risk_assessment p), queue_position p)) q))"

definition ra_pair :: "real \<Rightarrow> RiskAssessment list" where
  "ra_pair c =
     [\<lparr>risk_level = ''Low'', vital_signs = vs_age 40, confidence_score = c,
       priority_score = 0, timestamp = Some 0, time_factor = 1\<rparr>,
      \<lparr>risk_level = ''High'', vital_signs = vs_age 40, confidence_score = c,
       priority_score = 0, timestamp = Some 0, time_factor = 1\<rparr>]"

text \<open>
  A feedback outcome, the bindings recorded on the entries of a queue, the table of an
  update result, a manager holding nine feedback records, two assessments created at the
  same instant and two created a second apart, and the columns of a reply of
  \<^verbatim>\<open>GET /queue/next/\<close>.
\<close>

definition oc_good :: outcome where
  "oc_good = \<lparr>actual_wait_time = Some 20, satisfaction_score = Some 0.9,
               resource_utilization = Some 0.5\<rparr>"

definition binding_view ::
  "py_error + (PatientQueue list \<times> rng)
     \<Rightarrow> py_error + (string \<times> string option \<times> string option) list" where
  "binding_view r =
     (case r of
        Inl e \<Rightarrow> Inl e
      | Inr (q, g) \<Rightarrow> Inr (map (\<lambda>p. (patient_id p, rl_state p, rl_action p)) q))"

definition table_of :: "py_error + PatientSchedulerRL \<Rightarrow> py_error + q_table" where
  "table_of r = (case r of Inl e \<Rightarrow> Inl e | Inr self \<Rightarrow> Inr (q_table self))"

definition pm_nine :: PriorityManager where
  "pm_nine = \<lparr>rl_scheduler = sched_prepopulated,
              patient_history = replicate 9 (''patient_1_0'', oc_good, 0)\<rparr>"

definition ra_same_instant :: "RiskAssessment list" where
  "ra_same_instant =
     [\<lparr>risk_level = ''High'', vital_signs = vs_age 40, confidence_score = 0.9,
       priority_score = 0, timestamp = Some 0, time_factor = 1\<rparr>,
      \<lparr>risk_level = ''High'', vital_signs = vs_age 40, confidence_score = 0.8,
       priority_score = 0, timestamp = Some 0, time_factor = 1\<rparr>]"

definition ra_staggered :: "RiskAssessment list" where
  "ra_staggered =
     [\<lparr>risk_level = ''High'', vital_signs = vs_age 40, confidence_score = 0.9,
       priority_score = 0, timestamp = Some 0, time_factor = 1\<rparr>,
      \<lparr>risk_level = ''High'', vital_signs = vs_age 40, confidence_score = 0.8,
       priority_score = 0, timestamp = Some 1, time_factor = 1\<rparr>]"

definition next_view ::
  "py_error + (PatientQueueResponse \<times> RiskAssessment list \<times> rng)
     \<Rightarrow> py_error + (string \<times> real \<times> int \<times> real list)" where
  "next_view r =
     (case r of
        Inl e \<Rightarrow> Inl e
      | Inr (resp, remaining, g) \<Rightarrow>
          Inr (r_patient_id resp, r_confidence_score resp, r_queue_position resp,
               map confidence_score remaining))"

text \<open>Every row of a table has an entry, as every row made by the scheduler has.\<close>

definition rows_nonempty :: "q_table \<Rightarrow> bool" where
  "rows_nonempty qt = list_all (\<lambda>(state, row). row \<noteq> []) qt"

text \<open>
  Two low-risk assessments with score 0 created ten minutes apart, a generator that
  explores, and the timestamps in a reply of \<^verbatim>\<open>GET /queue/next/\<close>.
\<close>

definition ra_low_tie :: "RiskAssessment list" where
  "ra_low_tie =
     [\<lparr>risk_level = ''Low'', vital_signs = vs_age 40, confidence_score = 0,
       priority_score = 0, timestamp = Some 0, time_factor = 1\<rparr>,
      \<lparr>risk_level = ''Low'', vital_signs = vs_age 40, confidence_score = 0,
       priority_score = 0, timestamp = Some 600, time_factor = 1\<rparr>]"

definition rng_exploring :: rng where
  "rng_exploring = (\<lambda>n. if n = 0 then (0, 4) else if n = 1 then (0, 0) else (0, 2))"

definition next_times ::
  "py_error + (PatientQueueResponse \<times> RiskAssessment list \<times> rng)
     \<Rightarrow> py_error + (string \<times> real option \<times> real option list)" where
  "next_times r =
     (case r of
        Inl e \<Rightarrow> Inl e
      | Inr (resp, remaining, g) \<Rightarrow>
          Inr (r_patient_id resp, r_timestamp resp, map timestamp remaining))"


text \<open>
  A row in which the update of an action can be followed: the keys are distinct, as those
  of a dictionary are, the action has a value, and no other action is valued above \<open>T\<close>.
  One step from \<open>x\<close> to \<open>y\<close> approaches \<open>T\<close> at rate \<open>\<beta>\<close> when it stays on its side of
  \<open>T\<close>, moves towards \<open>T\<close>, and shrinks the distance by the factor \<open>\<beta>\<close> at least.
\<close>

definition row_inv :: "string \<Rightarrow> real \<Rightarrow> q_row \<Rightarrow> bool" where
  "row_inv a T row \<longleftrightarrow>
     distinct (map fst row) \<and> map_of row a \<noteq> None \<and> (\<forall>(k, v)\<in>set row. k \<noteq> a \<longrightarrow> v \<le> T)"

definition approaches :: "real \<Rightarrow> real \<Rightarrow> real \<Rightarrow> real \<Rightarrow> bool" where
  "approaches T \<beta> x y \<longleftrightarrow>
     (x \<le> T \<longrightarrow> x \<le> y \<and> y \<le> T \<and> T - y \<le> \<beta> * (T - x))
     \<and> (T \<le> x \<longrightarrow> T \<le> y \<and> y \<le> x \<and> y - T = \<beta> * (x - T))"

text \<open>A scheduler that has visited the state: another action is valued 5, below the limit.\<close>

definition sched_visited :: PatientSchedulerRL where
  "sched_visited = (init_scheduler NoFile)
     \<lparr>q_table := [(''s'', [(''immediate'', 0), (''delay_15'', 5), (''delay_30'', 0),
                            (''delay_60'', 0), (''delay_120'', 0)])]\<rparr>"

text \<open>
  The order of creation on assessments, two medium-risk assessments of equal final
  priority created ten minutes apart, and the positions and final priorities of a queue.
\<close>

definition admitted_not_after :: "RiskAssessment \<Rightarrow> RiskAssessment \<Rightarrow> bool" where
  "admitted_not_after a b =
     (case (timestamp a, timestamp b) of
        (Some x, Some y) \<Rightarrow> x \<le> y
      | _ \<Rightarrow> False)"

definition ra_tie :: "RiskAssessment list" where
  "ra_tie =
     [\<lparr>risk_level = ''Medium'', vital_signs = vs_age 40, confidence_score = 0,
       priority_score = 0, timestamp = Some 0, time_factor = 1\<rparr>,
      \<lparr>risk_level = ''Medium'', vital_signs = vs_age 40, confidence_score = 0,
       priority_score = 0, timestamp = Some 600, time_factor = 1\<rparr>]"

definition snapshot_view ::
  "real \<Rightarrow> py_error + (PatientQueue list \<times> rng) \<Rightarrow> py_error + (int \<times> real) list" where
  "snapshot_view now r =
     (case r of
        Inl e \<Rightarrow> Inl e
      | Inr (q, g) \<Rightarrow> Inr (map (\<lambda>p. (queue_position p, final_priority now p)) q))"

section \<open>The priority score\<close>

lemma accumulate_flags:
  "(let cf = (0::real);
        cf = (if c1 then cf + 0.3 else cf);
        cf = (if c2 then cf + 0.4 else cf);
        cf = (if c3 then cf + 0.5 else cf);
        cf = (if c4 then cf + 0.3 else cf);
        cf = (if c5 then cf + 0.2 else cf)
    in min cf 1)
   = min ((if c1 then 0.3 else 0) + (if c2 then 0.4 else 0) + (if c3 then 0.5 else 0)
        + (if c4 then 0.3 else 0) + (if c5 then 0.2 else 0)) 1"
  by (cases c1; cases c2; cases c3; cases c4; cases c5; simp)

lemma critical_factor_eq_spec:
  "calculate_critical_vitals_factor a = spec_critical_factor (vital_signs a)"
  unfolding calculate_critical_vitals_factor_def spec_critical_factor_def
  by (subst Let_def) (rule accumulate_flags)

lemma spec_critical_factor_bounds:
  "0 \<le> spec_critical_factor vs" "spec_critical_factor vs \<le> 1"
  unfolding spec_critical_factor_def by (simp_all add: add_nonneg_nonneg)

lemma critical_factor_bounds:
  "0 \<le> calculate_critical_vitals_factor a" "calculate_critical_vitals_factor a \<le> 1"
  by (simp_all add: critical_factor_eq_spec spec_critical_factor_bounds)

lemma urgency_cases:
  "calculate_time_urgency a now =
     (case timestamp a of
        None \<Rightarrow> (1, a\<lparr>timestamp := Some now\<rparr>)
      | Some ts \<Rightarrow>
          (1 + (now - ts) / 60
               / (if lower (risk_level a) = ''high'' then 10
                  else if lower (risk_level a) = ''medium'' then 30 else 120), a))"
  by (cases "timestamp a"; cases "lower (risk_level a) = ''high''";
      cases "lower (risk_level a) = ''medium''")
     (simp_all add: calculate_time_urgency_def)

lemma snd_urgency:
  "snd (calculate_time_urgency a now) =
     (case timestamp a of None \<Rightarrow> a\<lparr>timestamp := Some now\<rparr> | Some ts \<Rightarrow> a)"
  by (cases "timestamp a") (simp_all add: urgency_cases)

lemma vital_signs_after_urgency:
  "vital_signs (snd (calculate_time_urgency a now)) = vital_signs a"
  by (cases "timestamp a") (simp_all add: snd_urgency)

lemma critical_factor_after_urgency:
  "calculate_critical_vitals_factor (snd (calculate_time_urgency a now))
     = calculate_critical_vitals_factor a"
  by (simp only: critical_factor_eq_spec vital_signs_after_urgency)

lemma base_score_cases:
  "(case map_of risk_weights r of Some w \<Rightarrow> w | None \<Rightarrow> 10)
     = (if r = ''high'' then 100 else if r = ''medium'' then 50 else (10::real))"
  by (simp add: risk_weights_def)

lemma score_unfold:
  "fst (calculate_priority_score a now) =
     (if lower (risk_level a) = ''high'' then 100
      else if lower (risk_level a) = ''medium'' then 50 else 10)
     * confidence_score a * fst (calculate_time_urgency a now)
     * (1 + min (real_of_int (age (vital_signs a)) / 80) 1.5)
     * (1 + calculate_critical_vitals_factor a)"
  unfolding calculate_priority_score_def base_score_cases
  by (simp add: Let_def split_beta vital_signs_after_urgency critical_factor_after_urgency)

lemma snd_score:
  "snd (calculate_priority_score a now) =
     (snd (calculate_time_urgency a now))\<lparr>priority_score := fst (calculate_priority_score a now)\<rparr>"
  by (simp add: calculate_priority_score_def Let_def split_beta)

lemma all_flags_capped:
  assumes "heart_rate vs < 50 \<or> heart_rate vs > 120"
    and "systolic_blood_pressure vs < 90 \<or> systolic_blood_pressure vs > 180"
    and "oxygen_saturation vs < 90"
    and "body_temperature vs < 35 \<or> body_temperature vs > 39"
    and "respiratory_rate vs < 12 \<or> respiratory_rate vs > 25"
  shows "spec_critical_factor vs = 1"
  unfolding spec_critical_factor_def
  by (simp only: assms if_True; simp)

lemma lower_High: "lower ''High'' = ''high''" by (simp add: lower_def lower_char_def)

lemma lower_Medium: "lower ''Medium'' = ''medium''" by (simp add: lower_def lower_char_def)

lemma lower_Low: "lower ''Low'' = ''low''" by (simp add: lower_def lower_char_def)

lemma lower_low: "lower ''low'' = ''low''" by (simp add: lower_def lower_char_def)

lemma lower_medium: "lower ''medium'' = ''medium''" by (simp add: lower_def lower_char_def)

lemma lower_Critical: "lower ''Critical'' = ''critical''" by (simp add: lower_def lower_char_def)

text \<open>
  Claim C1. For every assessment and every clock reading, the score returned by
  \<^verbatim>\<open>calculate_priority_score\<close> is
  base \<times> confidence \<times> time urgency \<times> (1 + age factor) \<times> (1 + critical factor), with base
  100, 50 or 10 for a high, medium or low label, age factor \<open>min (age / 80) 1.5\<close>, and
  the critical factor the sum of the five indicator penalties capped at 1; an assessment
  that triggers all five indicators has critical factor exactly 1.
\<close>

theorem priority_score_formula:
  "fst (calculate_priority_score a now) =
     (if lower (risk_level a) = ''high'' then 100
      else if lower (risk_level a) = ''medium'' then 50 else 10)
     * confidence_score a * fst (calculate_time_urgency a now)
     * (1 + min (real_of_int (age (vital_signs a)) / 80) 1.5)
     * (1 + spec_critical_factor (vital_signs a))
   \<and> ((heart_rate (vital_signs a) < 50 \<or> heart_rate (vital_signs a) > 120)
       \<and> (systolic_blood_pressure (vital_signs a) < 90
            \<or> systolic_blood_pressure (vital_signs a) > 180)
       \<and> oxygen_saturation (vital_signs a) < 90
       \<and> (body_temperature (vital_signs a) < 35 \<or> body_temperature (vital_signs a) > 39)
       \<and> (respiratory_rate (vital_signs a) < 12 \<or> respiratory_rate (vital_signs a) > 25)
      \<longrightarrow> calculate_critical_vitals_factor a = 1)"
  using score_unfold [of a now] all_flags_capped [of "vital_signs a"]
  unfolding critical_factor_eq_spec by blast

text \<open>
  A high-risk assessment with all five indicators triggered, confidence 0.9 and age 40,
  ten minutes after its creation: \<open>100 \<times> 0.9 \<times> 2 \<times> 1.5 \<times> 2 = 540\<close>.
\<close>

theorem priority_score_formula_witness:
  "fst (calculate_priority_score ra_all_critical 600) = 540
   \<and> calculate_critical_vitals_factor ra_all_critical = 1"
  using priority_score_formula [of ra_all_critical 600]
  by (simp add: ra_all_critical_def vs_all_critical_def spec_critical_factor_def
      urgency_cases lower_High)

section \<open>The time urgency\<close>

text \<open>
  Claim C7. The urgency factor is 1 + elapsed minutes / divisor, with divisor 10, 30 or
  120 for a high, medium or low label (120 as well for any other label). For a low label
  it exceeds 2 once more than 120 minutes have elapsed, and is exactly 2 at 120 minutes.
\<close>

theorem time_urgency_formula:
  "fst (calculate_time_urgency a now) =
     1 + elapsed_minutes a now
         / (if lower (risk_level a) = ''high'' then 10
            else if lower (risk_level a) = ''medium'' then 30 else 120)
   \<and> (lower (risk_level a) = ''low'' \<and> 120 < elapsed_minutes a now
        \<longrightarrow> 2 < fst (calculate_time_urgency a now))
   \<and> (lower (risk_level a) = ''low'' \<and> elapsed_minutes a now = 120
        \<longrightarrow> fst (calculate_time_urgency a now) = 2)"
  by (cases "timestamp a") (simp_all add: urgency_cases elapsed_minutes_def)

text \<open>A low-risk assessment read 121 and 120 minutes after its creation.\<close>

theorem time_urgency_formula_witness:
  "lower (risk_level ra_low_waiting) = ''low''
   \<and> elapsed_minutes ra_low_waiting 7260 = 121
   \<and> fst (calculate_time_urgency ra_low_waiting 7260) = 1 + 121 / 120
   \<and> 2 < fst (calculate_time_urgency ra_low_waiting 7260)
   \<and> fst (calculate_time_urgency ra_low_waiting 7200) = 2"
  using time_urgency_formula [of ra_low_waiting 7260]
        time_urgency_formula [of ra_low_waiting 7200]
  by (simp add: ra_low_waiting_def lower_Low elapsed_minutes_def)

section \<open>Sign and monotonicity of the score\<close>

text \<open>
  Claim C8, as stated, fails: the age is an unconstrained integer, and below \<open>-80\<close> the
  factor \<open>1 + min (age / 80) 1.5\<close> is negative. With confidence 0.5 and age \<open>-160\<close> a
  high-risk assessment scores \<open>-50\<close> at its creation and \<open>-100\<close> ten minutes later: the
  score is negative and decreases with elapsed time.
\<close>

theorem priority_nonneg_counterexample:
  "0 \<le> confidence_score ra_negative_age \<and> confidence_score ra_negative_age \<le> 1
   \<and> fst (calculate_priority_score ra_negative_age 0) = - 50
   \<and> fst (calculate_priority_score ra_negative_age 600) = - 100"
  by (simp add: score_unfold urgency_cases critical_factor_eq_spec spec_critical_factor_def
      ra_negative_age_def vs_plain_def lower_High)

lemma static_factor_nonneg:
  assumes "0 \<le> confidence_score a" and "- 80 \<le> age (vital_signs a)"
  shows "0 \<le> (if lower (risk_level a) = ''high'' then 100
               else if lower (risk_level a) = ''medium'' then 50 else (10::real))
              * confidence_score a"
    and "0 \<le> 1 + min (real_of_int (age (vital_signs a)) / 80) 1.5"
    and "0 \<le> 1 + calculate_critical_vitals_factor a"
proof -
  show "0 \<le> (if lower (risk_level a) = ''high'' then 100
               else if lower (risk_level a) = ''medium'' then 50 else (10::real))
              * confidence_score a"
    using assms(1) by simp
  have "- 80 \<le> real_of_int (age (vital_signs a))" using assms(2) by linarith
  then show "0 \<le> 1 + min (real_of_int (age (vital_signs a)) / 80) 1.5"
    by (simp add: min_def)
  show "0 \<le> 1 + calculate_critical_vitals_factor a"
    using critical_factor_bounds(1) [of a] by linarith
qed

lemma score_as_urgency_multiple:
  "fst (calculate_priority_score a now) =
     ((if lower (risk_level a) = ''high'' then 100
       else if lower (risk_level a) = ''medium'' then 50 else 10)
      * confidence_score a
      * (1 + min (real_of_int (age (vital_signs a)) / 80) 1.5)
      * (1 + calculate_critical_vitals_factor a))
     * fst (calculate_time_urgency a now)"
  unfolding score_unfold by (simp only: mult_ac)

lemma static_product_nonneg:
  assumes "0 \<le> confidence_score a" and "- 80 \<le> age (vital_signs a)"
  shows "0 \<le> (if lower (risk_level a) = ''high'' then 100
               else if lower (risk_level a) = ''medium'' then 50 else (10::real))
              * confidence_score a
              * (1 + min (real_of_int (age (vital_signs a)) / 80) 1.5)
              * (1 + calculate_critical_vitals_factor a)"
  by (intro mult_nonneg_nonneg static_factor_nonneg assms)

lemma urgency_mono:
  assumes "timestamp a = Some ts" and "now \<le> now'"
  shows "fst (calculate_time_urgency a now) \<le> fst (calculate_time_urgency a now')"
  using assms by (simp add: urgency_cases divide_right_mono)

lemma fst_urgency:
  "fst (calculate_time_urgency a now) =
     (case timestamp a of
        None \<Rightarrow> 1
      | Some ts \<Rightarrow>
          1 + (now - ts) / 60
              / (if lower (risk_level a) = ''high'' then 10
                 else if lower (risk_level a) = ''medium'' then 30 else 120))"
  by (cases "timestamp a") (simp_all add: urgency_cases)

lemma urgency_ignores_priority_score:
  "fst (calculate_time_urgency (a\<lparr>priority_score := x\<rparr>) now)
     = fst (calculate_time_urgency a now)"
  by (cases "timestamp a") (simp_all add: fst_urgency)

lemma score_ignores_priority_score:
  "fst (calculate_priority_score (a\<lparr>priority_score := x\<rparr>) now)
     = fst (calculate_priority_score a now)"
  by (simp add: score_unfold urgency_ignores_priority_score critical_factor_eq_spec)

lemma urgency_ge_one_elapsed:
  assumes "\<forall>ts. timestamp a = Some ts \<longrightarrow> ts \<le> now"
  shows "1 \<le> fst (calculate_time_urgency a now)"
  using assms by (cases "timestamp a") (simp_all add: fst_urgency)

lemma score_stamped:
  "fst (calculate_priority_score (a\<lparr>timestamp := Some t\<rparr>) now') =
     ((if lower (risk_level a) = ''high'' then 100
       else if lower (risk_level a) = ''medium'' then 50 else 10)
      * confidence_score a
      * (1 + min (real_of_int (age (vital_signs a)) / 80) 1.5)
      * (1 + calculate_critical_vitals_factor a))
     * fst (calculate_time_urgency (a\<lparr>timestamp := Some t\<rparr>) now')"
  unfolding score_as_urgency_multiple by (simp add: critical_factor_eq_spec)

text \<open>
  Claim C8, amended. For a confidence in \<open>[0, 1]\<close>, an age of at least \<open>-80\<close> (every
  non-negative age) and a clock that is not before the creation, the score is
  non-negative and does not decrease when the clock advances, the other inputs fixed:
  a later scoring of the entry as the first scoring left it is at least the first, and
  so is a later scoring of an assessment that has its timestamp.
\<close>

theorem priority_nonneg_monotone:
  assumes "0 \<le> confidence_score a" and "confidence_score a \<le> 1"
    and "- 80 \<le> age (vital_signs a)"
    and "\<forall>ts. timestamp a = Some ts \<longrightarrow> ts \<le> now" and "now \<le> now'"
  shows "0 \<le> fst (calculate_priority_score a now)
         \<and> fst (calculate_priority_score a now)
             \<le> fst (calculate_priority_score (snd (calculate_priority_score a now)) now')
         \<and> (timestamp a \<noteq> None
              \<longrightarrow> fst (calculate_priority_score a now) \<le> fst (calculate_priority_score a now'))"
proof -
  let ?K = "(if lower (risk_level a) = ''high'' then 100
             else if lower (risk_level a) = ''medium'' then 50 else (10::real))
            * confidence_score a
            * (1 + min (real_of_int (age (vital_signs a)) / 80) 1.5)
            * (1 + calculate_critical_vitals_factor a)"
  have K: "0 \<le> ?K" using assms(1,3) by (rule static_product_nonneg)
  have "1 \<le> fst (calculate_time_urgency a now)"
    using assms(4) by (rule urgency_ge_one_elapsed)
  then have u: "0 \<le> fst (calculate_time_urgency a now)" by linarith
  have nonneg: "0 \<le> fst (calculate_priority_score a now)"
    unfolding score_as_urgency_multiple using K u by (rule mult_nonneg_nonneg)
  show ?thesis
  proof (cases "timestamp a")
    case None
    have s: "fst (calculate_priority_score a now) = ?K * 1"
      unfolding score_as_urgency_multiple by (simp add: fst_urgency None)
    have "snd (calculate_priority_score a now)
            = a\<lparr>timestamp := Some now, priority_score := fst (calculate_priority_score a now)\<rparr>"
      by (simp add: snd_score snd_urgency None)
    then have later: "fst (calculate_priority_score (snd (calculate_priority_score a now)) now')
            = ?K * fst (calculate_time_urgency (a\<lparr>timestamp := Some now\<rparr>) now')"
      by (simp only: score_ignores_priority_score score_stamped)
    have "1 \<le> fst (calculate_time_urgency (a\<lparr>timestamp := Some now\<rparr>) now')"
      using assms(5) by (simp add: fst_urgency)
    then have "?K * 1 \<le> ?K * fst (calculate_time_urgency (a\<lparr>timestamp := Some now\<rparr>) now')"
      using K by (rule mult_left_mono)
    with nonneg None show ?thesis unfolding later s by simp
  next
    case (Some ts)
    have mono: "fst (calculate_priority_score a now) \<le> fst (calculate_priority_score a now')"
      unfolding score_as_urgency_multiple
      using urgency_mono [OF Some assms(5)] K by (rule mult_left_mono)
    have "snd (calculate_priority_score a now)
            = a\<lparr>priority_score := fst (calculate_priority_score a now)\<rparr>"
      using Some by (simp add: snd_score snd_urgency)
    then have "fst (calculate_priority_score (snd (calculate_priority_score a now)) now')
            = fst (calculate_priority_score a now')"
      by (simp only: score_ignores_priority_score)
    with nonneg mono show ?thesis by simp
  qed
qed

text \<open>A high-risk assessment scored 10 and 20 minutes after its creation.\<close>

theorem priority_nonneg_monotone_witness:
  "0 \<le> fst (calculate_priority_score ra_high_plain 600)
   \<and> fst (calculate_priority_score ra_high_plain 600)
       \<le> fst (calculate_priority_score (snd (calculate_priority_score ra_high_plain 600)) 1200)
   \<and> fst (calculate_priority_score ra_high_plain 600)
       \<le> fst (calculate_priority_score ra_high_plain 1200)"
proof -
  have "0 \<le> confidence_score ra_high_plain" "confidence_score ra_high_plain \<le> 1"
    "- 80 \<le> age (vital_signs ra_high_plain)"
    "\<forall>ts. timestamp ra_high_plain = Some ts \<longrightarrow> ts \<le> 600" "(600::real) \<le> 1200"
    by (simp_all add: ra_high_plain_def vs_plain_def)
  from priority_nonneg_monotone [OF this]
  show ?thesis by (simp add: ra_high_plain_def)
qed

section \<open>Unrecognised risk labels\<close>

lemma wait_time_cases:
  "calculate_estimated_wait_time p position =
     (if lower (risk_level (risk_assessment p)) = ''high'' then max 0 (position * 15 - 10)
      else if lower (risk_level (risk_assessment p)) = ''medium'' then position * 20
      else if lower (risk_level (risk_assessment p)) = ''low'' then position * 25
      else position * 20)"
  by (simp add: calculate_estimated_wait_time_def base_time_per_patient_def Let_def)

text \<open>
  Claim C10. For a risk label that is none of high, medium and low in any casing, the
  score uses the base weight 10 and is the score of the same assessment labelled low;
  the wait-time estimate uses 20 minutes per position and is the estimate of the same
  entry labelled medium. Both functions are total: no label makes them fail.
\<close>

theorem unrecognised_risk_level:
  assumes "lower (risk_level (risk_assessment p)) \<notin> {''high'', ''medium'', ''low''}"
  shows "fst (calculate_priority_score (risk_assessment p) now) =
           10 * confidence_score (risk_assessment p)
           * fst (calculate_time_urgency (risk_assessment p) now)
           * (1 + min (real_of_int (age (vital_signs (risk_assessment p))) / 80) 1.5)
           * (1 + calculate_critical_vitals_factor (risk_assessment p))
         \<and> fst (calculate_priority_score (risk_assessment p) now) =
             fst (calculate_priority_score ((risk_assessment p)\<lparr>risk_level := ''low''\<rparr>) now)
         \<and> calculate_estimated_wait_time p position = position * 20
         \<and> calculate_estimated_wait_time p position =
             calculate_estimated_wait_time
               (p\<lparr>risk_assessment := (risk_assessment p)\<lparr>risk_level := ''medium''\<rparr>\<rparr>) position"
proof -
  have nh: "lower (risk_level (risk_assessment p)) \<noteq> ''high''"
    and nm: "lower (risk_level (risk_assessment p)) \<noteq> ''medium''"
    and nl: "lower (risk_level (risk_assessment p)) \<noteq> ''low''"
    using assms by simp_all
  have 1: "fst (calculate_priority_score (risk_assessment p) now) =
           10 * confidence_score (risk_assessment p)
           * fst (calculate_time_urgency (risk_assessment p) now)
           * (1 + min (real_of_int (age (vital_signs (risk_assessment p))) / 80) 1.5)
           * (1 + calculate_critical_vitals_factor (risk_assessment p))"
    unfolding score_unfold using nh nm by simp
  have 2: "fst (calculate_priority_score (risk_assessment p) now) =
             fst (calculate_priority_score ((risk_assessment p)\<lparr>risk_level := ''low''\<rparr>) now)"
    unfolding score_unfold critical_factor_eq_spec urgency_cases
    using nh nm by (cases "timestamp (risk_assessment p)") (simp_all add: lower_low)
  have 3: "calculate_estimated_wait_time p position = position * 20"
    unfolding wait_time_cases using nh nm nl by simp
  have 4: "calculate_estimated_wait_time
               (p\<lparr>risk_assessment := (risk_assessment p)\<lparr>risk_level := ''medium''\<rparr>\<rparr>) position
             = position * 20"
    unfolding wait_time_cases by (simp add: lower_medium)
  from 1 2 3 4 show ?thesis by simp
qed

text \<open>The label \<^verbatim>\<open>Critical\<close>, two hours after creation, at index 3.\<close>

theorem unrecognised_risk_level_witness:
  "lower (risk_level (risk_assessment pq_unrecognised)) \<notin> {''high'', ''medium'', ''low''}
   \<and> fst (calculate_priority_score (risk_assessment pq_unrecognised) 7200) = 24
   \<and> calculate_estimated_wait_time pq_unrecognised 3 = 60"
proof -
  have h: "lower (risk_level (risk_assessment pq_unrecognised)) \<notin> {''high'', ''medium'', ''low''}"
    by (simp add: pq_unrecognised_def lower_Critical)
  show ?thesis
    using h unrecognised_risk_level [OF h, of 7200 3]
    by (simp add: pq_unrecognised_def vs_plain_def urgency_cases lower_Critical
        critical_factor_eq_spec spec_critical_factor_def)
qed

section \<open>The Q-learning update\<close>

lemma map_of_ensure_state:
  "map_of (ensure_state qt s) s = Some (case map_of qt s of None \<Rightarrow> fresh_row | Some r \<Rightarrow> r)"
  by (cases "map_of qt s") (simp_all add: ensure_state_def update_conv')

lemma map_of_ensure_state_other:
  "s' \<noteq> s \<Longrightarrow> map_of (ensure_state qt s') s = map_of qt s"
  by (cases "map_of qt s'") (simp_all add: ensure_state_def update_conv')

lemma ensure_state_known: "map_of qt s = Some r \<Longrightarrow> ensure_state qt s = qt"
  by (simp add: ensure_state_def)

lemma ensure_state_idem: "ensure_state (ensure_state qt s) s = ensure_state qt s"
  using map_of_ensure_state [of qt s] by (simp add: ensure_state_known)

lemma snd_max_by: "snd (max_by b xs) = Max (insert (snd b) (snd ` set xs))"
proof (induction xs arbitrary: b)
  case Nil
  then show ?case by simp
next
  case (Cons x xs)
  have "Max (insert (snd (if snd b < snd x then x else b)) (snd ` set xs))
          = Max (insert (max (snd b) (snd x)) (snd ` set xs))"
    by (simp add: max_def)
  also have "\<dots> = Max (insert (snd b) (insert (snd x) (snd ` set xs)))"
    by (cases "set xs = {}") (simp_all add: max.assoc)
  finally show ?case using Cons.IH by simp
qed

lemma max_value_Max: "row \<noteq> [] \<Longrightarrow> max_value row = Inr (Max (snd ` set row))"
  by (cases row) (simp_all add: max_value_def snd_max_by)

lemma max_value_Inr_iff:
  "max_value row = Inr q \<longleftrightarrow> row \<noteq> [] \<and> q = Max (snd ` set row)"
  by (cases row) (auto simp add: max_value_def snd_max_by)

lemma values_update_subset:
  "snd ` set (AList.update a v row) \<subseteq> insert v (snd ` set row)"
  by (induction row) auto

lemma value_update_mem: "v \<in> snd ` set (AList.update a v row)"
  by (induction row) auto

lemma max_value_update:
  assumes "max_value row = Inr q" and "q \<le> q'"
  shows "max_value (AList.update a q' row) = Inr q'"
proof -
  from assms(1) have ne: "row \<noteq> []" and q: "q = Max (snd ` set row)"
    by (simp_all add: max_value_Inr_iff)
  have fin: "finite (snd ` set (AList.update a q' row))" by simp
  have "\<And>v. v \<in> snd ` set (AList.update a q' row) \<Longrightarrow> v \<le> q'"
  proof -
    fix v assume "v \<in> snd ` set (AList.update a q' row)"
    then have "v = q' \<or> v \<in> snd ` set row" using values_update_subset [of a q' row] by blast
    then show "v \<le> q'"
    proof
      assume "v = q'" then show ?thesis by simp
    next
      assume "v \<in> snd ` set row"
      then have "v \<le> q" unfolding q by (simp add: Max_ge)
      with assms(2) show ?thesis by linarith
    qed
  qed
  then have "Max (snd ` set (AList.update a q' row)) = q'"
    using fin value_update_mem [of q' a row] by (intro Max_eqI) auto
  then show ?thesis by (simp add: max_value_Inr_iff)
qed

lemma update_q_value_known:
  assumes "map_of (q_table self) s = Some row" and "map_of row a = Some q"
    and "max_value row = Inr m"
  shows "update_q_value self s a r s =
           Inr (self\<lparr>q_table := AList.update s
                         (AList.update a (q + learning_rate self * (r + discount_factor self * m - q)) row)
                         (q_table self),
                      epsilon := max (min_epsilon self) (epsilon self * epsilon_decay self)\<rparr>)"
  using assms by (simp add: update_q_value_def ensure_state_known Let_def)

lemma update_q_value_prepared:
  "update_q_value (self\<lparr>q_table := ensure_state (q_table self) s\<rparr>) s a r s'
     = update_q_value self s a r s'"
  by (simp add: update_q_value_def ensure_state_idem Let_def
      cong: option.case_cong sum.case_cong)

lemma q_step_algebra:
  fixes \<alpha> \<gamma> r q :: real
  assumes "\<gamma> < 1"
  shows "r / (1 - \<gamma>) - (q + \<alpha> * (r + \<gamma> * q - q))
           = (r / (1 - \<gamma>) - q) * (1 - \<alpha> * (1 - \<gamma>))"
proof -
  define T where "T = r / (1 - \<gamma>)"
  have r: "r = T * (1 - \<gamma>)" using assms by (simp add: T_def)
  show ?thesis unfolding T_def [symmetric] unfolding r by (simp add: algebra_simps)
qed

lemma contraction_bounds:
  fixes \<alpha> \<gamma> :: real
  assumes "0 < \<alpha>" "\<alpha> \<le> 1" "0 \<le> \<gamma>" "\<gamma> < 1"
  shows "0 \<le> 1 - \<alpha> * (1 - \<gamma>)" and "1 - \<alpha> * (1 - \<gamma>) < 1"
proof -
  have "\<alpha> * (1 - \<gamma>) \<le> 1 * 1" using assms by (intro mult_mono) simp_all
  then show "0 \<le> 1 - \<alpha> * (1 - \<gamma>)" by simp
  have "0 < \<alpha> * (1 - \<gamma>)" using assms by simp
  then show "1 - \<alpha> * (1 - \<gamma>) < 1" by simp
qed

lemma gap_step:
  fixes T q q1 x :: real
  assumes "T - q1 = x"
  shows "x \<le> T - q \<Longrightarrow> q \<le> q1" and "0 \<le> x \<Longrightarrow> q1 \<le> T"
  using assms by linarith+

lemma repeat_update_known:
  assumes "0 < learning_rate self" "learning_rate self \<le> 1"
    and "0 \<le> discount_factor self" "discount_factor self < 1"
    and "map_of (q_table self) s = Some row" "map_of row a = Some q" "max_value row = Inr q"
    and "q \<le> r / (1 - discount_factor self)"
  shows "\<exists>self'. repeat_update n self s a r s = Inr self'
           \<and> q_value self' s a =
               r / (1 - discount_factor self)
               - (r / (1 - discount_factor self) - q)
                 * (1 - learning_rate self * (1 - discount_factor self)) ^ n"
  using assms
proof (induction n arbitrary: self row q)
  case 0
  then show ?case by (simp add: q_value_def)
next
  case (Suc n)
  let ?\<alpha> = "learning_rate self" and ?\<gamma> = "discount_factor self"
  let ?T = "r / (1 - ?\<gamma>)" and ?\<beta> = "1 - ?\<alpha> * (1 - ?\<gamma>)"
  let ?q1 = "q + ?\<alpha> * (r + ?\<gamma> * q - q)"
  let ?row1 = "AList.update a ?q1 row"
  let ?self1 = "self\<lparr>q_table := AList.update s ?row1 (q_table self),
                      epsilon := max (min_epsilon self) (epsilon self * epsilon_decay self)\<rparr>"
  have step: "update_q_value self s a r s = Inr ?self1"
    using Suc.prems(5,6,7) by (rule update_q_value_known)
  have diff: "?T - ?q1 = (?T - q) * ?\<beta>"
    using Suc.prems(4) by (rule q_step_algebra)
  have \<beta>: "0 \<le> ?\<beta>" "?\<beta> < 1"
    using Suc.prems(1-4) by (rule contraction_bounds)+
  have gap: "0 \<le> ?T - q" using Suc.prems(8) by simp
  have "(?T - q) * ?\<beta> \<le> (?T - q) * 1"
    using gap \<beta>(2) by (intro mult_left_mono) simp_all
  then have shrink: "(?T - q) * ?\<beta> \<le> ?T - q" by simp
  have pos: "0 \<le> (?T - q) * ?\<beta>" using gap \<beta>(1) by (rule mult_nonneg_nonneg)
  have q_le: "q \<le> ?q1" using diff shrink by (rule gap_step(1))
  have q1_le: "?q1 \<le> ?T" using diff pos by (rule gap_step(2))
  have p1: "0 < learning_rate ?self1" "learning_rate ?self1 \<le> 1"
    "0 \<le> discount_factor ?self1" "discount_factor ?self1 < 1"
    using Suc.prems(1-4) by simp_all
  have p5: "map_of (q_table ?self1) s = Some ?row1" by (simp add: update_conv')
  have p6: "map_of ?row1 a = Some ?q1" by (simp add: update_conv')
  have p7: "max_value ?row1 = Inr ?q1" using Suc.prems(7) q_le by (rule max_value_update)
  have p8: "?q1 \<le> r / (1 - discount_factor ?self1)" using q1_le by simp
  from Suc.IH [OF p1 p5 p6 p7 p8]
  obtain self' where res: "repeat_update n ?self1 s a r s = Inr self'"
    and val: "q_value self' s a = ?T - (?T - ?q1) * ?\<beta> ^ n"
    by auto
  have "repeat_update (Suc n) self s a r s = Inr self'"
    using step res by simp
  moreover have "q_value self' s a = ?T - (?T - q) * ?\<beta> ^ Suc n"
    unfolding val diff by simp
  ultimately show ?case by blast
qed

lemma fresh_row_lookup:
  "a \<in> set (map fst actions) \<Longrightarrow> map_of fresh_row a = Some 0"
  by (auto simp add: fresh_row_def actions_def)

lemma max_value_fresh_row: "max_value fresh_row = Inr 0"
  by (simp add: max_value_def fresh_row_def actions_def)

lemma repeat_update_prepared:
  "repeat_update (Suc n) (self\<lparr>q_table := ensure_state (q_table self) s\<rparr>) s a r s
     = repeat_update (Suc n) self s a r s"
  by (simp add: update_q_value_prepared)

lemma geometric_gap_limit:
  fixes T q0 \<beta> :: real
  assumes "0 \<le> \<beta>" "\<beta> < 1"
  shows "(\<lambda>n. T - (T - q0) * \<beta> ^ n) \<longlonglongrightarrow> T"
proof -
  have "(\<lambda>n. \<beta> ^ n) \<longlonglongrightarrow> 0" using assms by (rule LIMSEQ_realpow_zero)
  then have "(\<lambda>n. (T - q0) * \<beta> ^ n) \<longlonglongrightarrow> (T - q0) * 0"
    by (rule tendsto_mult_left)
  then have "(\<lambda>n. T - (T - q0) * \<beta> ^ n) \<longlonglongrightarrow> T - (T - q0) * 0"
    by (rule tendsto_diff [OF tendsto_const])
  then show ?thesis by simp
qed

lemma geometric_gap_mono:
  fixes T q0 \<beta> :: real
  assumes "0 \<le> \<beta>" "\<beta> < 1" "q0 \<le> T"
  shows "T - (T - q0) * \<beta> ^ n \<le> T - (T - q0) * \<beta> ^ Suc n"
    and "T - (T - q0) * \<beta> ^ n \<le> T"
proof -
  have g: "0 \<le> T - q0" using assms(3) by simp
  have p: "0 \<le> \<beta> ^ n" using assms(1) by simp
  have "\<beta> ^ Suc n \<le> \<beta> ^ n" using assms(1,2) by (simp add: mult_left_le_one_le)
  then have "(T - q0) * \<beta> ^ Suc n \<le> (T - q0) * \<beta> ^ n" using g by (rule mult_left_mono)
  then show "T - (T - q0) * \<beta> ^ n \<le> T - (T - q0) * \<beta> ^ Suc n" by linarith
  have "0 \<le> (T - q0) * \<beta> ^ n" using g p by (rule mult_nonneg_nonneg)
  then show "T - (T - q0) * \<beta> ^ n \<le> T" by linarith
qed

lemma q_seq_closed_form:
  assumes "0 < learning_rate self" "learning_rate self \<le> 1"
    and "0 \<le> discount_factor self" "discount_factor self < 1"
    and init: "case map_of (q_table self) state of
                 None \<Rightarrow> action \<in> set (map fst actions) \<and> q0 = 0
               | Some row \<Rightarrow> map_of row action = Some q0 \<and> max_value row = Inr q0"
    and "q0 \<le> reward / (1 - discount_factor self)"
  shows "q_seq self state action reward n =
           Some (reward / (1 - discount_factor self)
                 - (reward / (1 - discount_factor self) - q0)
                   * (1 - learning_rate self * (1 - discount_factor self)) ^ n)"
proof (cases "map_of (q_table self) state")
  case (Some row)
  with init have "map_of row action = Some q0" "max_value row = Inr q0" by simp_all
  from repeat_update_known [OF assms(1-4) Some this assms(6), of n]
  show ?thesis by (auto simp add: q_seq_def)
next
  case None
  with init have a: "action \<in> set (map fst actions)" and q0: "q0 = 0" by simp_all
  show ?thesis
  proof (cases n)
    case 0
    then show ?thesis using None q0 by (simp add: q_seq_def q_value_def)
  next
    case (Suc m)
    let ?self0 = "self\<lparr>q_table := ensure_state (q_table self) state\<rparr>"
    have p: "0 < learning_rate ?self0" "learning_rate ?self0 \<le> 1"
      "0 \<le> discount_factor ?self0" "discount_factor ?self0 < 1"
      using assms(1-4) by simp_all
    have r: "map_of (q_table ?self0) state = Some fresh_row"
      using None by (simp add: map_of_ensure_state)
    have l: "map_of fresh_row action = Some q0" using a q0 by (simp add: fresh_row_lookup)
    have m: "max_value fresh_row = Inr q0" using q0 by (simp add: max_value_fresh_row)
    have b: "q0 \<le> reward / (1 - discount_factor ?self0)" using assms(6) by simp
    from repeat_update_known [OF p r l m b, of n]
    show ?thesis
      unfolding Suc repeat_update_prepared by (auto simp add: q_seq_def)
  qed
qed

section \<open>The Q-learning update: convergence\<close>

text \<open>
  The maximum over the row of the state is the value of the action itself or that of
  another action; as long as the others are at most \<open>T\<close>, each update moves the value
  towards \<open>T\<close>.
\<close>

lemma set_update_subset: "set (AList.update a v row) \<subseteq> insert (a, v) (set row)"
  by (induction row) auto

lemma row_max_bounds:
  assumes "distinct (map fst row)" and "map_of row a = Some q"
    and "\<forall>(k, v)\<in>set row. k \<noteq> a \<longrightarrow> v \<le> T"
  shows "\<exists>m. max_value row = Inr m \<and> q \<le> m \<and> m \<le> max q T"
proof -
  from assms(2) have mem: "(a, q) \<in> set row" by (rule map_of_SomeD)
  then have ne: "row \<noteq> []" by auto
  let ?m = "Max (snd ` set row)"
  have "q \<in> snd ` set row" using mem by force
  then have lo: "q \<le> ?m" by (simp add: Max_ge)
  have "\<And>v. v \<in> snd ` set row \<Longrightarrow> v \<le> max q T"
  proof -
    fix v assume "v \<in> snd ` set row"
    then obtain k where kv: "(k, v) \<in> set row" by auto
    show "v \<le> max q T"
    proof (cases "k = a")
      case True
      with kv assms(1) have "map_of row a = Some v" by simp
      with assms(2) show ?thesis by simp
    next
      case False
      with kv assms(3) have "v \<le> T" by blast
      then show ?thesis by simp
    qed
  qed
  then have hi: "?m \<le> max q T" using ne by (simp add: Max_le_iff)
  from ne lo hi show ?thesis by (simp add: max_value_Max)
qed

lemma row_inv_update:
  assumes "row_inv a T row"
  shows "row_inv a T (AList.update a v row)"
proof -
  from assms have d: "distinct (map fst row)"
    and o: "\<forall>(k, v)\<in>set row. k \<noteq> a \<longrightarrow> v \<le> T"
    by (simp_all add: row_inv_def)
  have 1: "distinct (map fst (AList.update a v row))" using d by (rule distinct_update)
  have 2: "map_of (AList.update a v row) a \<noteq> None" by (simp add: update_conv')
  have 3: "\<forall>(k, w)\<in>set (AList.update a v row). k \<noteq> a \<longrightarrow> w \<le> T"
    using o set_update_subset [of a v row] by blast
  from 1 2 3 show ?thesis by (simp add: row_inv_def)
qed

lemma q_step_bounds:
  fixes \<alpha> \<gamma> r q m T :: real
  assumes "0 < \<alpha>" "\<alpha> \<le> 1" "0 \<le> \<gamma>" "\<gamma> < 1"
    and T: "T = r / (1 - \<gamma>)" and qm: "q \<le> m" and mT: "m \<le> max q T"
  shows "approaches T (1 - \<alpha> * (1 - \<gamma>)) q (q + \<alpha> * (r + \<gamma> * m - q))"
proof -
  let ?q1 = "q + \<alpha> * (r + \<gamma> * m - q)"
  let ?\<beta> = "1 - \<alpha> * (1 - \<gamma>)"
  have r: "r = T * (1 - \<gamma>)" using assms(4) by (simp add: T)
  have \<beta>: "0 \<le> ?\<beta>" "?\<beta> < 1" using assms(1-4) by (rule contraction_bounds)+
  have below: "q \<le> ?q1 \<and> ?q1 \<le> T \<and> T - ?q1 \<le> ?\<beta> * (T - q)" if qT: "q \<le> T"
  proof -
    from mT qT have m: "m \<le> T" by simp
    have e1: "?q1 - q = \<alpha> * (1 - \<gamma>) * (T - q) + \<alpha> * \<gamma> * (m - q)"
      unfolding r by (simp add: algebra_simps)
    have e2: "T - ?q1 = (1 - \<alpha>) * (T - q) + \<alpha> * \<gamma> * (T - m)"
      unfolding r by (simp add: algebra_simps)
    have e3: "?\<beta> * (T - q) - (T - ?q1) = \<alpha> * \<gamma> * (m - q)"
      unfolding r by (simp add: algebra_simps)
    have p1: "0 \<le> \<alpha> * (1 - \<gamma>) * (T - q)" using assms(1,4) qT by simp
    have p2: "0 \<le> \<alpha> * \<gamma> * (m - q)" using assms(1,3) qm by simp
    have p3: "0 \<le> (1 - \<alpha>) * (T - q)" using assms(2) qT by simp
    have p4: "0 \<le> \<alpha> * \<gamma> * (T - m)" using assms(1,3) m by simp
    from e1 p1 p2 have a: "q \<le> ?q1" by linarith
    from e2 p3 p4 have b: "?q1 \<le> T" by linarith
    from e3 p2 have c: "T - ?q1 \<le> ?\<beta> * (T - q)" by linarith
    from a b c show ?thesis by blast
  qed
  have above: "T \<le> ?q1 \<and> ?q1 \<le> q \<and> ?q1 - T = ?\<beta> * (q - T)" if Tq: "T \<le> q"
  proof -
    from mT Tq qm have m: "m = q" by simp
    have e: "?q1 - T = ?\<beta> * (q - T)"
      unfolding m r by (simp add: algebra_simps)
    have g: "0 \<le> q - T" using Tq by simp
    have p: "0 \<le> ?\<beta> * (q - T)" using \<beta>(1) g by (rule mult_nonneg_nonneg)
    have "?\<beta> * (q - T) \<le> 1 * (q - T)" using \<beta>(2) g by (intro mult_right_mono) simp_all
    then have s: "?\<beta> * (q - T) \<le> q - T" by simp
    from e p have a: "T \<le> ?q1" by linarith
    from e s have b: "?q1 \<le> q" by linarith
    from a b e show ?thesis by blast
  qed
  from below above show ?thesis unfolding approaches_def by blast
qed

lemma update_step:
  assumes rates: "0 < learning_rate self" "learning_rate self \<le> 1"
      "0 \<le> discount_factor self" "discount_factor self < 1"
    and T: "T = r / (1 - discount_factor self)"
    and row: "map_of (q_table self) s = Some row" and inv: "row_inv a T row"
  shows "\<exists>self1 row1.
           update_q_value self s a r s = Inr self1
           \<and> learning_rate self1 = learning_rate self
           \<and> discount_factor self1 = discount_factor self
           \<and> map_of (q_table self1) s = Some row1 \<and> row_inv a T row1
           \<and> approaches T (1 - learning_rate self * (1 - discount_factor self))
                (q_value self s a) (q_value self1 s a)"
proof -
  from inv have d: "distinct (map fst row)"
    and o: "\<forall>(k, v)\<in>set row. k \<noteq> a \<longrightarrow> v \<le> T"
    by (simp_all add: row_inv_def)
  from inv obtain q where q: "map_of row a = Some q" by (auto simp add: row_inv_def)
  from row_max_bounds [OF d q o] obtain m where m: "max_value row = Inr m"
    and qm: "q \<le> m" and mT: "m \<le> max q T" by blast
  let ?q1 = "q + learning_rate self * (r + discount_factor self * m - q)"
  let ?row1 = "AList.update a ?q1 row"
  let ?self1 = "self\<lparr>q_table := AList.update s ?row1 (q_table self),
                      epsilon := max (min_epsilon self) (epsilon self * epsilon_decay self)\<rparr>"
  have step: "update_q_value self s a r s = Inr ?self1"
    using row q m by (rule update_q_value_known)
  have r1: "map_of (q_table ?self1) s = Some ?row1" by (simp add: update_conv')
  have i1: "row_inv a T ?row1" using inv by (rule row_inv_update)
  have v0: "q_value self s a = q" by (simp add: q_value_def row q)
  have v1: "q_value ?self1 s a = ?q1" by (simp add: q_value_def update_conv')
  have ap: "approaches T (1 - learning_rate self * (1 - discount_factor self)) q ?q1"
    using rates T qm mT by (rule q_step_bounds)
  have ap': "approaches T (1 - learning_rate self * (1 - discount_factor self))
               (q_value self s a) (q_value ?self1 s a)"
    unfolding v0 v1 by (rule ap)
  have lr: "learning_rate ?self1 = learning_rate self"
    and df: "discount_factor ?self1 = discount_factor self"
    by simp_all
  from step lr df r1 i1 ap' show ?thesis by blast
qed

lemma repeat_update_snoc:
  "repeat_update (Suc n) self s a r s' =
     (case repeat_update n self s a r s' of
        Inl e \<Rightarrow> Inl e
      | Inr self' \<Rightarrow> update_q_value self' s a r s')"
proof (induction n arbitrary: self)
  case 0
  show ?case by (cases "update_q_value self s a r s'") simp_all
next
  case (Suc n)
  show ?case
  proof (cases "update_q_value self s a r s'")
    case (Inl e)
    then show ?thesis by simp
  next
    case (Inr self1)
    have "repeat_update (Suc (Suc n)) self s a r s' = repeat_update (Suc n) self1 s a r s'"
      using Inr by simp
    also have "\<dots> = (case repeat_update n self1 s a r s' of
                        Inl e \<Rightarrow> Inl e | Inr self' \<Rightarrow> update_q_value self' s a r s')"
      by (rule Suc.IH)
    also have "repeat_update n self1 s a r s' = repeat_update (Suc n) self s a r s'"
      using Inr by simp
    finally show ?thesis .
  qed
qed

lemma repeat_update_inv:
  assumes rates: "0 < learning_rate self" "learning_rate self \<le> 1"
      "0 \<le> discount_factor self" "discount_factor self < 1"
    and T: "T = r / (1 - discount_factor self)"
    and row: "map_of (q_table self) s = Some row" and inv: "row_inv a T row"
  shows "\<exists>self' row'.
           repeat_update n self s a r s = Inr self'
           \<and> learning_rate self' = learning_rate self
           \<and> discount_factor self' = discount_factor self
           \<and> map_of (q_table self') s = Some row' \<and> row_inv a T row'"
proof (induction n)
  case 0
  show ?case using row inv by simp
next
  case (Suc n)
  then obtain self' row' where rep: "repeat_update n self s a r s = Inr self'"
    and lr: "learning_rate self' = learning_rate self"
    and df: "discount_factor self' = discount_factor self"
    and row': "map_of (q_table self') s = Some row'" and inv': "row_inv a T row'"
    by blast
  have rates': "0 < learning_rate self'" "learning_rate self' \<le> 1"
      "0 \<le> discount_factor self'" "discount_factor self' < 1"
    using rates unfolding lr df by simp_all
  have T': "T = r / (1 - discount_factor self')" using T unfolding df .
  from update_step [OF rates' T' row' inv'] obtain self1 row1 where
    "update_q_value self' s a r s = Inr self1"
    "learning_rate self1 = learning_rate self'" "discount_factor self1 = discount_factor self'"
    "map_of (q_table self1) s = Some row1" "row_inv a T row1"
    by blast
  then show ?case unfolding repeat_update_snoc rep lr df by simp
qed

lemma q_seq_step:
  assumes rates: "0 < learning_rate self" "learning_rate self \<le> 1"
      "0 \<le> discount_factor self" "discount_factor self < 1"
    and T: "T = r / (1 - discount_factor self)"
    and row: "map_of (q_table self) s = Some row" and inv: "row_inv a T row"
  shows "\<exists>x y. q_seq self s a r n = Some x \<and> q_seq self s a r (Suc n) = Some y
           \<and> approaches T (1 - learning_rate self * (1 - discount_factor self)) x y"
proof -
  from repeat_update_inv [OF assms, of n] obtain self' row' where
    rep: "repeat_update n self s a r s = Inr self'"
    and lr: "learning_rate self' = learning_rate self"
    and df: "discount_factor self' = discount_factor self"
    and row': "map_of (q_table self') s = Some row'" and inv': "row_inv a T row'"
    by blast
  have rates': "0 < learning_rate self'" "learning_rate self' \<le> 1"
      "0 \<le> discount_factor self'" "discount_factor self' < 1"
    using rates unfolding lr df by simp_all
  have T': "T = r / (1 - discount_factor self')" using T unfolding df .
  from update_step [OF rates' T' row' inv'] obtain self1 where
    up: "update_q_value self' s a r s = Inr self1"
    and ap: "approaches T (1 - learning_rate self' * (1 - discount_factor self'))
               (q_value self' s a) (q_value self1 s a)"
    by blast
  have x: "q_seq self s a r n = Some (q_value self' s a)" by (simp add: q_seq_def rep)
  have y: "q_seq self s a r (Suc n) = Some (q_value self1 s a)"
    unfolding q_seq_def repeat_update_snoc rep by (simp add: up)
  from x y ap show ?thesis unfolding lr df by blast
qed

lemma q_value_prepared:
  "q_value (self\<lparr>q_table := ensure_state (q_table self) s\<rparr>) s a = q_value self s a"
proof (cases "map_of (q_table self) s")
  case None
  have "(case map_of fresh_row a of None \<Rightarrow> 0 | Some v \<Rightarrow> v) = (0::real)"
    by (simp add: fresh_row_def actions_def)
  then show ?thesis by (simp add: q_value_def map_of_ensure_state None)
next
  case (Some row)
  then show ?thesis by (simp add: ensure_state_known)
qed

lemma q_seq_prepared:
  "q_seq (self\<lparr>q_table := ensure_state (q_table self) s\<rparr>) s a r n = q_seq self s a r n"
proof (cases n)
  case 0
  then show ?thesis by (simp add: q_seq_def q_value_prepared)
next
  case (Suc m)
  show ?thesis unfolding q_seq_def Suc repeat_update_prepared ..
qed

lemma row_inv_fresh:
  assumes "a \<in> set (map fst actions)" and "0 \<le> T"
  shows "row_inv a T fresh_row"
proof -
  have "distinct (map fst fresh_row)" by (simp add: fresh_row_def actions_def)
  moreover have "map_of fresh_row a \<noteq> None" using assms(1) by (simp add: fresh_row_lookup)
  moreover have "\<forall>(k, v)\<in>set fresh_row. k \<noteq> a \<longrightarrow> v \<le> T"
    using assms(2) by (auto simp add: fresh_row_def)
  ultimately show ?thesis by (simp add: row_inv_def)
qed

lemma distance_step:
  fixes T \<beta> x y :: real
  assumes "approaches T \<beta> x y"
  shows "\<bar>T - y\<bar> \<le> \<beta> * \<bar>T - x\<bar>"
proof (cases "x \<le> T")
  case True
  with assms have "y \<le> T" "T - y \<le> \<beta> * (T - x)" by (simp_all add: approaches_def)
  with True show ?thesis by simp
next
  case False
  then have "T \<le> x" by simp
  with assms have "T \<le> y" "y - T = \<beta> * (x - T)" by (simp_all add: approaches_def)
  with \<open>T \<le> x\<close> show ?thesis by simp
qed

lemma distance_power:
  fixes T \<beta> :: real and q :: "nat \<Rightarrow> real"
  assumes "\<forall>n. \<bar>T - q (Suc n)\<bar> \<le> \<beta> * \<bar>T - q n\<bar>" and "0 \<le> \<beta>"
  shows "\<bar>T - q n\<bar> \<le> \<bar>T - q 0\<bar> * \<beta> ^ n"
proof (induction n)
  case 0
  show ?case by simp
next
  case (Suc n)
  have "\<bar>T - q (Suc n)\<bar> \<le> \<beta> * \<bar>T - q n\<bar>" using assms(1) by blast
  also have "\<dots> \<le> \<beta> * (\<bar>T - q 0\<bar> * \<beta> ^ n)" using Suc assms(2) by (rule mult_left_mono)
  also have "\<dots> = \<bar>T - q 0\<bar> * \<beta> ^ Suc n" by simp
  finally show ?case .
qed

lemma squeeze_limit:
  fixes T \<beta> c :: real and q :: "nat \<Rightarrow> real"
  assumes "0 \<le> \<beta>" "\<beta> < 1" and bound: "\<forall>n. \<bar>T - q n\<bar> \<le> c * \<beta> ^ n"
  shows "q \<longlonglongrightarrow> T"
proof -
  have p: "(\<lambda>n. \<beta> ^ n) \<longlonglongrightarrow> 0" using assms(1,2) by (rule LIMSEQ_realpow_zero)
  then have cp: "(\<lambda>n. c * \<beta> ^ n) \<longlonglongrightarrow> c * 0" by (rule tendsto_mult_left)
  have lo: "(\<lambda>n. T - c * \<beta> ^ n) \<longlonglongrightarrow> T"
    using tendsto_diff [OF tendsto_const cp, of T] by simp
  have hi: "(\<lambda>n. T + c * \<beta> ^ n) \<longlonglongrightarrow> T"
    using tendsto_add [OF tendsto_const cp, of T] by simp
  have l: "\<forall>n. T - c * \<beta> ^ n \<le> q n"
  proof
    fix n
    from bound have "\<bar>T - q n\<bar> \<le> c * \<beta> ^ n" by blast
    then show "T - c * \<beta> ^ n \<le> q n" by linarith
  qed
  have h: "\<forall>n. q n \<le> T + c * \<beta> ^ n"
  proof
    fix n
    from bound have "\<bar>T - q n\<bar> \<le> c * \<beta> ^ n" by blast
    then show "q n \<le> T + c * \<beta> ^ n" by linarith
  qed
  show ?thesis
    by (rule tendsto_sandwich [OF _ _ lo hi]) (simp_all add: l h)
qed

lemma approaches_below:
  fixes q :: "nat \<Rightarrow> real"
  assumes "\<forall>n. approaches T \<beta> (q n) (q (Suc n))" and "q 0 \<le> T"
  shows "q n \<le> q (Suc n) \<and> q n \<le> T"
proof -
  have le: "q n \<le> T"
  proof (induction n)
    case 0
    show ?case by (rule assms(2))
  next
    case (Suc n)
    from assms(1) have "approaches T \<beta> (q n) (q (Suc n))" by blast
    with Suc show ?case by (simp add: approaches_def)
  qed
  from assms(1) have "approaches T \<beta> (q n) (q (Suc n))" by blast
  with le show ?thesis by (simp add: approaches_def)
qed

lemma approaches_above:
  fixes q :: "nat \<Rightarrow> real"
  assumes "\<forall>n. approaches T \<beta> (q n) (q (Suc n))" and "T \<le> q 0"
  shows "q (Suc n) \<le> q n \<and> T \<le> q n"
proof -
  have ge: "T \<le> q n"
  proof (induction n)
    case 0
    show ?case by (rule assms(2))
  next
    case (Suc n)
    from assms(1) have "approaches T \<beta> (q n) (q (Suc n))" by blast
    with Suc show ?case by (simp add: approaches_def)
  qed
  from assms(1) have "approaches T \<beta> (q n) (q (Suc n))" by blast
  with ge show ?thesis by (simp add: approaches_def)
qed

text \<open>
  Claim C9, amended. Let the learning rate be in \<open>(0, 1]\<close> and the discount in \<open>[0, 1)\<close>
  (the constructor's 0.1 and 0.95 are), and write \<open>T\<close> for reward / (1 - discount). Let
  the state be unknown to the table, the action one of the five action names and the
  reward not negative, so that the row starts at 0.0; or let the state be known, with a
  value for the action and no other action of its row valued above \<open>T\<close>. Then every one
  of the repeated identical updates with next state = state returns, and the values of
  \<open>Q(state, action)\<close> approach \<open>T\<close> monotonically: from a start at or below \<open>T\<close> they
  never decrease and never exceed \<open>T\<close>, from a start at or above \<open>T\<close> they never
  increase and never fall below \<open>T\<close>; the distance to \<open>T\<close> after \<open>n\<close> updates is at most
  the starting distance times \<open>(1 - rate (1 - discount))\<^sup>n\<close>, and the values converge to
  \<open>T\<close>.
\<close>

theorem q_learning_converges:
  assumes "0 < learning_rate self" "learning_rate self \<le> 1"
    and "0 \<le> discount_factor self" "discount_factor self < 1"
    and "case map_of (q_table self) state of
           None \<Rightarrow> action \<in> set (map fst actions) \<and> 0 \<le> reward
         | Some row \<Rightarrow>
             distinct (map fst row) \<and> map_of row action \<noteq> None
             \<and> (\<forall>(k, v)\<in>set row. k \<noteq> action \<longrightarrow> v \<le> reward / (1 - discount_factor self))"
  shows "\<exists>q. (\<forall>n. q_seq self state action reward n = Some (q n))
           \<and> q 0 = q_value self state action
           \<and> (q 0 \<le> reward / (1 - discount_factor self)
                \<longrightarrow> (\<forall>n. q n \<le> q (Suc n) \<and> q n \<le> reward / (1 - discount_factor self)))
           \<and> (reward / (1 - discount_factor self) \<le> q 0
                \<longrightarrow> (\<forall>n. q (Suc n) \<le> q n \<and> reward / (1 - discount_factor self) \<le> q n))
           \<and> (\<forall>n. \<bar>reward / (1 - discount_factor self) - q n\<bar>
                    \<le> \<bar>reward / (1 - discount_factor self) - q 0\<bar>
                       * (1 - learning_rate self * (1 - discount_factor self)) ^ n)
           \<and> q \<longlonglongrightarrow> reward / (1 - discount_factor self)"
proof -
  let ?T = "reward / (1 - discount_factor self)"
  let ?\<beta> = "1 - learning_rate self * (1 - discount_factor self)"
  let ?self0 = "self\<lparr>q_table := ensure_state (q_table self) state\<rparr>"
  have \<beta>: "0 \<le> ?\<beta>" "?\<beta> < 1" using assms(1-4) by (rule contraction_bounds)+
  have "\<exists>row. map_of (q_table ?self0) state = Some row \<and> row_inv action ?T row"
  proof (cases "map_of (q_table self) state")
    case None
    with assms(5) have a: "action \<in> set (map fst actions)" and r: "0 \<le> reward" by simp_all
    have "0 \<le> ?T" using r assms(4) by simp
    with a have "row_inv action ?T fresh_row" by (rule row_inv_fresh)
    moreover have "map_of (q_table ?self0) state = Some fresh_row"
      using None by (simp add: map_of_ensure_state)
    ultimately show ?thesis by blast
  next
    case (Some row)
    have "row_inv action ?T row"
      using assms(5) unfolding Some row_inv_def by (auto dest: map_of_SomeD)
    moreover have "map_of (q_table ?self0) state = Some row"
      using Some by (simp add: ensure_state_known)
    ultimately show ?thesis by blast
  qed
  then obtain row where row: "map_of (q_table ?self0) state = Some row"
    and inv: "row_inv action ?T row" by blast
  have rates0: "0 < learning_rate ?self0" "learning_rate ?self0 \<le> 1"
      "0 \<le> discount_factor ?self0" "discount_factor ?self0 < 1"
    using assms(1-4) by simp_all
  have T0: "?T = reward / (1 - discount_factor ?self0)" by simp
  have steps: "\<exists>x y. q_seq self state action reward n = Some x
                 \<and> q_seq self state action reward (Suc n) = Some y
                 \<and> approaches ?T ?\<beta> x y" for n
    using q_seq_step [OF rates0 T0 row inv, of n] unfolding q_seq_prepared by simp
  define q where "q n = (case q_seq self state action reward n of Some x \<Rightarrow> x | None \<Rightarrow> 0)" for n
  have seq: "\<forall>n. q_seq self state action reward n = Some (q n)"
  proof
    fix n
    from steps [of n] obtain x where "q_seq self state action reward n = Some x" by blast
    then show "q_seq self state action reward n = Some (q n)" by (simp add: q_def)
  qed
  have app: "\<forall>n. approaches ?T ?\<beta> (q n) (q (Suc n))"
  proof
    fix n
    from steps [of n] obtain x y where "q_seq self state action reward n = Some x"
      "q_seq self state action reward (Suc n) = Some y" "approaches ?T ?\<beta> x y" by blast
    then show "approaches ?T ?\<beta> (q n) (q (Suc n))" by (simp add: q_def)
  qed
  have start: "q 0 = q_value self state action" by (simp add: q_def q_seq_def)
  have below: "q 0 \<le> ?T \<longrightarrow> (\<forall>n. q n \<le> q (Suc n) \<and> q n \<le> ?T)"
    using approaches_below [OF app] by blast
  have above: "?T \<le> q 0 \<longrightarrow> (\<forall>n. q (Suc n) \<le> q n \<and> ?T \<le> q n)"
    using approaches_above [OF app] by blast
  have "\<forall>n. \<bar>?T - q (Suc n)\<bar> \<le> ?\<beta> * \<bar>?T - q n\<bar>"
    using app distance_step by blast
  then have dist: "\<forall>n. \<bar>?T - q n\<bar> \<le> \<bar>?T - q 0\<bar> * ?\<beta> ^ n"
    using distance_power [OF _ \<beta>(1)] by blast
  have lim: "q \<longlonglongrightarrow> ?T" using \<beta> dist by (rule squeeze_limit)
  from seq start below above dist lim show ?thesis by blast
qed

lemma visited_values:
  "q_seq sched_visited ''s'' ''immediate'' 1 0 = Some 0"
  "q_seq sched_visited ''s'' ''immediate'' 1 1 = Some (23 / 40)"
  "q_seq sched_visited ''s'' ''immediate'' 1 2 = Some (437 / 400)"
  by code_simp+

text \<open>
  A visited state whose row values another action at 5: with reward 1 the limit is 20,
  and the values of \<^verbatim>\<open>immediate\<close> rise from 0 through 23/40 towards it.
\<close>

theorem q_learning_converges_witness:
  "\<exists>q. (\<forall>n. q_seq sched_visited ''s'' ''immediate'' 1 n = Some (q n))
       \<and> q 0 = 0 \<and> q 1 = 23 / 40
       \<and> (\<forall>n. q n \<le> q (Suc n) \<and> q n \<le> 20)
       \<and> (\<forall>n. \<bar>20 - q n\<bar> \<le> 20 * (199 / 200) ^ n)
       \<and> q \<longlonglongrightarrow> 20"
proof -
  have c: "learning_rate sched_visited = 1 / 10" "discount_factor sched_visited = 19 / 20"
    by (simp_all add: sched_visited_def init_scheduler_def load_q_table_def)
  have h: "0 < learning_rate sched_visited" "learning_rate sched_visited \<le> 1"
    "0 \<le> discount_factor sched_visited" "discount_factor sched_visited < 1"
    unfolding c by simp_all
  have r: "case map_of (q_table sched_visited) ''s'' of
             None \<Rightarrow> ''immediate'' \<in> set (map fst actions) \<and> (0::real) \<le> 1
           | Some row \<Rightarrow>
               distinct (map fst row) \<and> map_of row ''immediate'' \<noteq> None
               \<and> (\<forall>(k, v)\<in>set row. k \<noteq> ''immediate''
                    \<longrightarrow> v \<le> 1 / (1 - discount_factor sched_visited))"
    unfolding c by (simp add: sched_visited_def)
  have "\<exists>q. (\<forall>n. q_seq sched_visited ''s'' ''immediate'' 1 n = Some (q n))
           \<and> q 0 = q_value sched_visited ''s'' ''immediate''
           \<and> (q 0 \<le> 20 \<longrightarrow> (\<forall>n. q n \<le> q (Suc n) \<and> q n \<le> 20))
           \<and> (20 \<le> q 0 \<longrightarrow> (\<forall>n. q (Suc n) \<le> q n \<and> 20 \<le> q n))
           \<and> (\<forall>n. \<bar>20 - q n\<bar> \<le> \<bar>20 - q 0\<bar> * (199 / 200) ^ n)
           \<and> q \<longlonglongrightarrow> 20"
    using q_learning_converges [OF h r] unfolding c by simp
  then obtain q where
    seq: "\<forall>n. q_seq sched_visited ''s'' ''immediate'' 1 n = Some (q n)"
    and below: "q 0 \<le> 20 \<longrightarrow> (\<forall>n. q n \<le> q (Suc n) \<and> q n \<le> 20)"
    and dist: "\<forall>n. \<bar>20 - q n\<bar> \<le> \<bar>20 - q 0\<bar> * (199 / 200) ^ n"
    and lim: "q \<longlonglongrightarrow> 20"
    by blast
  have q0: "q 0 = 0" using seq visited_values(1) by (metis option.inject)
  have q1: "q 1 = 23 / 40" using seq visited_values(2) by (metis option.inject)
  from seq q0 q1 below dist lim show ?thesis by (intro exI [of _ q]) simp
qed

lemma update_prepopulated_once:
  "update_q_value sched_prepopulated ''s'' ''immediate'' 1 ''s'' =
     Inr (sched_prepopulated
           \<lparr>q_table := [(''s'', [(''immediate'', 951 / 10), (''delay_15'', 1000),
                                  (''delay_30'', 0), (''delay_60'', 0), (''delay_120'', 0)])],
            epsilon := 199 / 2000\<rparr>)"
  by (simp add: update_q_value_def sched_prepopulated_def init_scheduler_def load_q_table_def
      ensure_state_def max_value_def Let_def)

text \<open>
  Claim C9, as stated, fails on a table that already holds a larger value for another
  action of the state: the maximum over the row is then that value, not
  \<open>Q(state, action)\<close>. With reward 1 the claimed limit is \<open>1 / (1 - 0.95) = 20\<close>; one
  update takes \<open>Q\<close> from 0 to \<open>0.1 \<times> (1 + 0.95 \<times> 1000) = 95.1\<close>, past the limit and
  farther from it than before.
\<close>

theorem q_learning_counterexample:
  "q_seq sched_prepopulated ''s'' ''immediate'' 1 0 = Some 0
   \<and> q_seq sched_prepopulated ''s'' ''immediate'' 1 1 = Some (951 / 10)
   \<and> 1 / (1 - discount_factor sched_prepopulated) = 20
   \<and> \<bar>0 - 20\<bar> < \<bar>951 / 10 - (20::real)\<bar>"
proof -
  have 0: "q_seq sched_prepopulated ''s'' ''immediate'' 1 0 = Some 0"
    by (simp add: q_seq_def q_value_def sched_prepopulated_def)
  have "repeat_update (Suc 0) sched_prepopulated ''s'' ''immediate'' 1 ''s'' =
     Inr (sched_prepopulated
           \<lparr>q_table := [(''s'', [(''immediate'', 951 / 10), (''delay_15'', 1000),
                                  (''delay_30'', 0), (''delay_60'', 0), (''delay_120'', 0)])],
            epsilon := 199 / 2000\<rparr>)"
    by (simp add: update_prepopulated_once)
  then have 1: "q_seq sched_prepopulated ''s'' ''immediate'' 1 1 = Some (951 / 10)"
    by (simp add: q_seq_def q_value_def)
  have 2: "1 / (1 - discount_factor sched_prepopulated) = 20"
    by (simp add: sched_prepopulated_def init_scheduler_def load_q_table_def)
  from 0 1 2 show ?thesis by simp
qed

text \<open>
  An action name outside the action space does not default to 0.0: the row of a state has
  the five action names only, and reading another one raises \<^verbatim>\<open>KeyError\<close>.
\<close>

lemma update_unknown_action_raises:
  "update_q_value (init_scheduler NoFile) ''s'' ''wait'' 1 ''s'' = Inl (KeyError ''wait'')"
  by (simp add: update_q_value_def init_scheduler_def load_q_table_def ensure_state_def
      fresh_row_def actions_def Let_def)

section \<open>Positions\<close>

lemma length_assign_positions: "length (assign_positions ps) = length ps"
  by (simp add: assign_positions_def)

lemma nth_assign_positions:
  "i < length ps \<Longrightarrow> assign_positions ps ! i = (ps ! i)\<lparr>queue_position := int i + 1\<rparr>"
  by (simp add: assign_positions_def nth_enumerate_eq)

lemma positions_assign_positions:
  "map queue_position (assign_positions ps) = map (\<lambda>i. int i + 1) [0..<length ps]"
  by (rule nth_equalityI) (simp_all add: length_assign_positions nth_assign_positions)

section \<open>Final priority\<close>

lemma score_after_scoring:
  "fst (calculate_priority_score (snd (calculate_priority_score a now)) now)
     = fst (calculate_priority_score a now)"
proof -
  have "fst (calculate_priority_score (snd (calculate_time_urgency a now)) now)
          = fst (calculate_priority_score a now)"
    by (cases "timestamp a")
       (simp_all add: score_unfold snd_urgency fst_urgency critical_factor_eq_spec)
  then show ?thesis by (simp add: snd_score score_ignores_priority_score)
qed

lemma risk_level_after_urgency:
  "risk_level (snd (calculate_time_urgency a now)) = risk_level a"
  by (cases "timestamp a") (simp_all add: snd_urgency)

lemma risk_level_after_scoring:
  "risk_level (snd (calculate_priority_score a now)) = risk_level a"
  by (simp add: snd_score risk_level_after_urgency)

lemma final_priority_unfold:
  "final_priority now p =
     fst (calculate_priority_score (risk_assessment p) now)
     + (if lower (risk_level (risk_assessment p)) = ''low'' then rl_adjustment p else 0)"
  by (simp add: final_priority_def get_final_priority_def split_beta Let_def
      risk_level_after_scoring)

lemma snd_get_final_priority:
  "snd (get_final_priority p now) =
     p\<lparr>risk_assessment := snd (calculate_priority_score (risk_assessment p) now)\<rparr>"
  by (simp add: get_final_priority_def split_beta Let_def)

lemma final_priority_after_key:
  "final_priority now (snd (get_final_priority p now)) = fst (get_final_priority p now)"
  unfolding final_priority_def [symmetric] final_priority_unfold snd_get_final_priority
  by (simp add: score_after_scoring risk_level_after_scoring)

lemma final_priority_ignores_position:
  "final_priority now (p\<lparr>queue_position := x\<rparr>) = final_priority now p"
  by (simp add: final_priority_unfold)

section \<open>The sort\<close>

lemma length_sort_by_final_priority: "length (sort_by_final_priority now ps) = length ps"
  by (simp add: sort_by_final_priority_def)

lemma keys_of_sorted:
  "map (final_priority now) (sort_by_final_priority now ps)
     = map fst (sort_key (\<lambda>kp. - fst kp) (map (\<lambda>p. get_final_priority p now) ps))"
proof -
  have "\<And>kp. kp \<in> set (sort_key (\<lambda>kp. - fst kp) (map (\<lambda>p. get_final_priority p now) ps))
          \<Longrightarrow> final_priority now (snd kp) = fst kp"
    by (auto simp add: final_priority_after_key)
  then show ?thesis
    unfolding sort_by_final_priority_def by (simp add: comp_def cong: map_cong)
qed

lemma sorted_desc_sort:
  "sorted_wrt (\<ge>) (map (final_priority now) (sort_by_final_priority now ps))"
proof -
  let ?S = "sort_key (\<lambda>kp. - fst kp) (map (\<lambda>p. get_final_priority p now) ps)"
  have "sorted (map (\<lambda>kp. - fst kp) ?S)" by (rule sorted_sort_key)
  then have "sorted_wrt (\<lambda>a b. - fst a \<le> - fst b) ?S"
    by (simp add: sorted_wrt_map)
  then have "sorted_wrt (\<lambda>a b. fst a \<ge> fst b) ?S" by simp
  then show ?thesis unfolding keys_of_sorted by (simp add: sorted_wrt_map)
qed

lemma sorted_wrt_filter_nth:
  "sorted_wrt R (filter P xs) \<Longrightarrow> i < j \<Longrightarrow> j < length xs \<Longrightarrow> P (xs ! i) \<Longrightarrow> P (xs ! j)
     \<Longrightarrow> R (xs ! i) (xs ! j)"
proof (induction xs arbitrary: i j)
  case Nil
  then show ?case by simp
next
  case (Cons x xs)
  from Cons.prems(2) obtain j' where j: "j = Suc j'" by (cases j) simp_all
  have tail: "sorted_wrt R (filter P xs)" using Cons.prems(1) by (cases "P x") simp_all
  show ?case
  proof (cases i)
    case 0
    with Cons.prems(4) have "P x" by simp
    with Cons.prems(1) have all: "\<forall>y\<in>set (filter P xs). R x y" by simp
    have "xs ! j' \<in> set (filter P xs)" using Cons.prems(3,5) j by simp
    with all show ?thesis using 0 j by simp
  next
    case (Suc i')
    with Cons.prems j have "i' < j'" "j' < length xs" "P (xs ! i')" "P (xs ! j')" by simp_all
    from Cons.IH [OF tail this] show ?thesis using Suc j by simp
  qed
qed

lemma sort_keeps_input_order:
  assumes R: "sorted_wrt R (map (\<lambda>p. snd (get_final_priority p now)) ps)"
    and ij: "i < j" "j < length ps"
    and tie: "final_priority now (sort_by_final_priority now ps ! i)
              = final_priority now (sort_by_final_priority now ps ! j)"
  shows "R (sort_by_final_priority now ps ! i) (sort_by_final_priority now ps ! j)"
proof -
  let ?f = "\<lambda>kp :: real \<times> PatientQueue. - fst kp"
  let ?K = "map (\<lambda>p. get_final_priority p now) ps"
  let ?S = "sort_key ?f ?K"
  have len: "length ?S = length ps" by simp
  have i: "i < length ?S" and j: "j < length ?S" using ij by simp_all
  have key: "\<And>n. n < length ?S \<Longrightarrow> final_priority now (snd (?S ! n)) = fst (?S ! n)"
  proof -
    fix n assume "n < length ?S"
    then have "?S ! n \<in> set ?S" by (rule nth_mem)
    then show "final_priority now (snd (?S ! n)) = fst (?S ! n)"
      by (auto simp add: final_priority_after_key)
  qed
  have res: "\<And>n. n < length ?S \<Longrightarrow> sort_by_final_priority now ps ! n = snd (?S ! n)"
    by (simp add: sort_by_final_priority_def)
  from tie have eq: "?f (?S ! i) = ?f (?S ! j)"
    unfolding res [OF i] res [OF j] key [OF i] key [OF j] by simp
  let ?P = "\<lambda>y. ?f y = ?f (?S ! j)"
  have "sorted_wrt (\<lambda>a b. R (snd a) (snd b)) ?K"
    using R by (simp add: sorted_wrt_map comp_def)
  then have "sorted_wrt (\<lambda>a b. R (snd a) (snd b)) (filter ?P ?K)"
    by (rule sorted_wrt_filter)
  then have "sorted_wrt (\<lambda>a b. R (snd a) (snd b)) (filter ?P ?S)"
    by (simp only: sort_key_stable)
  from sorted_wrt_filter_nth [OF this ij(1) j eq refl]
  show ?thesis unfolding res [OF i] res [OF j] .
qed

section \<open>The loop over the patients\<close>

lemma choose_action_cases:
  "choose_action self state g = Inr (a, self', g') \<Longrightarrow> g' = rng_next g"
  by (auto simp add: choose_action_def Let_def split_beta
      split: if_splits option.splits sum.splits)

lemma rl_adjustment_apply_le: "rl_adjustment (apply_action_to_patient a p) \<le> 10"
  by (simp add: apply_action_to_patient_def action_effects_def Let_def)

lemma risk_assessment_apply:
  "risk_assessment (apply_action_to_patient a p) = risk_assessment p"
  by (simp add: apply_action_to_patient_def Let_def)

lemma rl_loop_result:
  "rl_loop self qi now ps g = Inr (qs, self', g') \<Longrightarrow>
     map risk_assessment qs = map risk_assessment ps
     \<and> (\<forall>q\<in>set qs. lower (risk_level (risk_assessment q)) = ''low'' \<longrightarrow> rl_adjustment q \<le> 10)"
proof (induction ps arbitrary: self g qs self' g')
  case Nil
  then show ?case by simp
next
  case (Cons p ps)
  show ?case
  proof (cases "lower (risk_level (risk_assessment p)) = ''low''")
    case False
    with Cons.prems obtain rest where
      rec: "rl_loop self qi now ps g = Inr (rest, self', g')" and qs: "qs = p # rest"
      by (auto split: sum.splits)
    from Cons.IH [OF rec] False show ?thesis unfolding qs by simp
  next
    case True
    let ?state = "get_state p qi now"
    from Cons.prems True obtain a self1 g1 rest where
      ch: "choose_action self ?state g = Inr (a, self1, g1)"
      and rec: "rl_loop self1 qi now ps g1 = Inr (rest, self', g')"
      and qs: "qs = (apply_action_to_patient a p)\<lparr>rl_state := Some ?state, rl_action := Some a\<rparr>
                    # rest"
      by (auto simp add: Let_def split: sum.splits)
    from Cons.IH [OF rec] show ?thesis
      unfolding qs by (simp add: risk_assessment_apply rl_adjustment_apply_le)
  qed
qed

lemma rl_loop_length:
  "rl_loop self qi now ps g = Inr (qs, self', g') \<Longrightarrow> length qs = length ps"
  using rl_loop_result [of self qi now ps g qs self' g'] by (metis length_map)

section \<open>The schedule\<close>

lemma schedule_result:
  assumes "schedule_patients_with_rl self patients qi now g = Inr (res, self', g')"
  obtains qs where "rl_loop self qi now patients g = Inr (qs, self', g')"
    and "res = assign_positions (sort_by_final_priority now qs)"
  using assms by (auto simp add: schedule_patients_with_rl_def split: sum.splits)

lemma created_not_after_assessments:
  "risk_assessment p' = risk_assessment p \<Longrightarrow> risk_assessment q' = risk_assessment q
     \<Longrightarrow> created_not_after p' q' = created_not_after p q"
  by (simp add: created_not_after_def)

lemma timestamp_after_scoring:
  "timestamp a = Some t \<Longrightarrow> timestamp (snd (calculate_priority_score a now)) = Some t"
  by (simp add: snd_score snd_urgency)

lemma created_not_after_key:
  assumes "created_not_after p q"
  shows "created_not_after (snd (get_final_priority p now)) (snd (get_final_priority q now))"
proof -
  from assms obtain a b where
    "timestamp (risk_assessment p) = Some a" "timestamp (risk_assessment q) = Some b" "a \<le> b"
    by (auto simp add: created_not_after_def split: option.splits)
  then show ?thesis
    by (simp add: created_not_after_def snd_get_final_priority timestamp_after_scoring)
qed

lemma created_not_after_position:
  "created_not_after (p\<lparr>queue_position := x\<rparr>) (q\<lparr>queue_position := y\<rparr>) = created_not_after p q"
  by (simp add: created_not_after_def)

lemma sorted_wrt_same_assessments:
  "map risk_assessment qs = map risk_assessment ps
     \<Longrightarrow> sorted_wrt created_not_after qs = sorted_wrt created_not_after ps"
proof (induction qs arbitrary: ps)
  case Nil
  then show ?case by simp
next
  case (Cons q qs)
  then obtain p ps' where ps: "ps = p # ps'" and hd: "risk_assessment q = risk_assessment p"
    and tl: "map risk_assessment qs = map risk_assessment ps'"
    by (cases ps) auto
  have "(\<forall>y\<in>set qs. created_not_after q y) = (\<forall>y\<in>set ps'. created_not_after p y)"
  proof -
    have "(\<forall>y\<in>set qs. created_not_after q y)
            = (\<forall>r\<in>set (map risk_assessment qs).
                 case (timestamp (risk_assessment q), timestamp r) of
                   (Some a, Some b) \<Rightarrow> a \<le> b | _ \<Rightarrow> False)"
      by (simp add: created_not_after_def)
    also have "\<dots> = (\<forall>r\<in>set (map risk_assessment ps').
                 case (timestamp (risk_assessment p), timestamp r) of
                   (Some a, Some b) \<Rightarrow> a \<le> b | _ \<Rightarrow> False)"
      unfolding tl hd ..
    also have "\<dots> = (\<forall>y\<in>set ps'. created_not_after p y)"
      by (simp add: created_not_after_def)
    finally show ?thesis .
  qed
  with Cons.IH [OF tl] show ?case unfolding ps by simp
qed

lemma schedule_descending:
  assumes "schedule_patients_with_rl self patients qi now g = Inr (res, self', g')"
  shows "sorted_wrt (\<ge>) (map (final_priority now) res)"
proof -
  from assms obtain qs where res: "res = assign_positions (sort_by_final_priority now qs)"
    by (rule schedule_result)
  have "map (final_priority now) res = map (final_priority now) (sort_by_final_priority now qs)"
    unfolding res
    by (rule nth_equalityI)
       (simp_all add: length_assign_positions nth_assign_positions final_priority_ignores_position)
  then show ?thesis by (simp only: sorted_desc_sort)
qed

lemma tie_ab_view:
  "schedule_view 1200 (schedule_patients_with_rl (init_scheduler NoFile) [pq_tie_a, pq_tie_b]
       (make_queue_info [pq_tie_a, pq_tie_b]) 1200 rng_greedy)
     = Inr [(''patient_1_0'', 1, Some 0, 0), (''patient_2_600'', 2, Some 600, 0)]"
  by code_simp

lemma schedule_view_entries:
  assumes "schedule_view now r = Inr v"
  obtains res self' g' where "r = Inr (res, self', g')" and "schedule_entries r = res"
    and "map (\<lambda>p. (patient_id p, queue_position p, timestamp (risk_assessment p),
                    final_priority now p)) res = v"
  using assms by (cases r) (auto simp add: schedule_view_def schedule_entries_def)

section \<open>High before low\<close>

lemma age_factor_ge_one:
  "0 \<le> age vs \<Longrightarrow> 1 \<le> 1 + min (real_of_int (age vs) / 80) 1.5"
  by (simp add: min_def)

lemma critical_term_ge_one: "1 \<le> 1 + calculate_critical_vitals_factor a"
  using critical_factor_bounds(1) [of a] by simp

lemma weight_gap:
  fixes m u b :: real
  assumes m: "1 / 9 < m" and u: "0 \<le> u" and b: "b \<le> 10"
  shows "10 * (1 + u / 120) * m + b < 100 * (1 + u / 10) * m"
proof -
  have mpos: "0 < m" using m by simp
  have "0 \<le> u * m" using u mpos by simp
  then have "0 \<le> (10 - 1 / 12) * (u * m)" by simp
  moreover have "10 < 90 * m" using m by simp
  ultimately have "b < 90 * m + (10 - 1 / 12) * (u * m)" using b by linarith
  moreover have "100 * (1 + u / 10) * m - 10 * (1 + u / 120) * m
                   = 90 * m + (10 - 1 / 12) * (u * m)"
    by (simp add: algebra_simps)
  ultimately show ?thesis by linarith
qed

lemma scale_up:
  fixes c k :: real
  assumes "1 / 9 < c" and "1 \<le> k"
  shows "1 / 9 < c * k"
proof -
  have "0 \<le> c" using assms(1) by simp
  with assms(2) have "c * 1 \<le> c * k" by (rule mult_left_mono)
  then have "c \<le> c * k" by simp
  with assms(1) show ?thesis by linarith
qed

lemma high_beats_low:
  assumes hi: "lower (risk_level (risk_assessment x)) = ''high''"
    and lo: "lower (risk_level (risk_assessment y)) = ''low''"
    and conf: "confidence_score (risk_assessment y) = confidence_score (risk_assessment x)"
    and vit: "vital_signs (risk_assessment y) = vital_signs (risk_assessment x)"
    and tx: "timestamp (risk_assessment x) = Some t"
    and ty: "timestamp (risk_assessment y) = Some t"
    and now: "t \<le> now"
    and c: "1 / 9 < confidence_score (risk_assessment x)"
    and age: "0 \<le> age (vital_signs (risk_assessment x))"
    and adj: "rl_adjustment y \<le> 10"
  shows "final_priority now y < final_priority now x"
proof -
  let ?c = "confidence_score (risk_assessment x)"
  let ?A = "1 + min (real_of_int (age (vital_signs (risk_assessment x))) / 80) 1.5"
  let ?C = "1 + calculate_critical_vitals_factor (risk_assessment x)"
  let ?u = "(now - t) / 60"
  let ?m = "?c * (?A * ?C)"
  have crit: "calculate_critical_vitals_factor (risk_assessment y)
                = calculate_critical_vitals_factor (risk_assessment x)"
    by (simp add: critical_factor_eq_spec vit)
  have fx: "final_priority now x = 100 * (1 + ?u / 10) * ?m"
    using hi tx by (simp add: final_priority_unfold score_unfold fst_urgency)
  have "lower (risk_level (risk_assessment y)) \<noteq> ''high''"
    "lower (risk_level (risk_assessment y)) \<noteq> ''medium''"
    using lo by simp_all
  then have fy: "final_priority now y = 10 * (1 + ?u / 120) * ?m + rl_adjustment y"
    using lo ty by (simp add: final_priority_unfold score_unfold fst_urgency conf vit crit)
  have A: "1 \<le> ?A" using age by (rule age_factor_ge_one)
  have C: "1 \<le> ?C" by (rule critical_term_ge_one)
  have "1 * 1 \<le> ?A * ?C" using A C by (intro mult_mono) simp_all
  then have AC: "1 \<le> ?A * ?C" by simp
  have m: "1 / 9 < ?m" using c AC by (rule scale_up)
  have u: "0 \<le> ?u" using now by simp
  show ?thesis unfolding fx fy using m u adj by (rule weight_gap)
qed

lemma set_sort_by_final_priority:
  "set (sort_by_final_priority now qs) = (\<lambda>q. snd (get_final_priority q now)) ` set qs"
  by (simp add: sort_by_final_priority_def image_image)

lemma adjustment_after_key:
  "rl_adjustment (snd (get_final_priority q now)) = rl_adjustment q"
  by (simp add: snd_get_final_priority)

lemma risk_level_after_key:
  "risk_level (risk_assessment (snd (get_final_priority q now))) = risk_level (risk_assessment q)"
  by (simp add: snd_get_final_priority risk_level_after_scoring)

lemma schedule_low_adjustment:
  assumes "schedule_patients_with_rl self patients qi now g = Inr (res, self', g')"
    and "y \<in> set res" and "lower (risk_level (risk_assessment y)) = ''low''"
  shows "rl_adjustment y \<le> 10"
proof -
  from assms(1) obtain qs where loop: "rl_loop self qi now patients g = Inr (qs, self', g')"
    and res: "res = assign_positions (sort_by_final_priority now qs)"
    by (rule schedule_result)
  from assms(2) obtain n where n: "n < length res" and y: "y = res ! n"
    by (auto simp add: in_set_conv_nth)
  let ?S = "sort_by_final_priority now qs"
  have nS: "n < length ?S" using n unfolding res by (simp add: length_assign_positions)
  have y': "y = (?S ! n)\<lparr>queue_position := int n + 1\<rparr>"
    unfolding y res using nS by (rule nth_assign_positions)
  have "?S ! n \<in> set ?S" using nS by (rule nth_mem)
  then obtain q where q: "q \<in> set qs" and Sn: "?S ! n = snd (get_final_priority q now)"
    unfolding set_sort_by_final_priority by blast
  have "lower (risk_level (risk_assessment q)) = ''low''"
    using assms(3) unfolding y' Sn by (simp add: risk_level_after_key)
  with rl_loop_result [OF loop] q have "rl_adjustment q \<le> 10" by blast
  then show ?thesis unfolding y' Sn by (simp add: adjustment_after_key)
qed

lemma sorted_wrt_ge_nth:
  fixes ks :: "real list"
  assumes "sorted_wrt (\<ge>) ks" and "j < length ks" and "i < length ks" and "ks ! j < ks ! i"
  shows "i < j"
proof (rule ccontr)
  assume "\<not> i < j"
  then have "j < i \<or> j = i" by linarith
  then show False
  proof
    assume "j < i"
    with assms(1) have "ks ! j \<ge> ks ! i" using assms(3) by (rule sorted_wrt_nth_less)
    with assms(4) show False by simp
  next
    assume "j = i"
    with assms(4) show False by simp
  qed
qed

lemma schedule_high_before_low:
  assumes sched: "schedule_patients_with_rl self patients qi now g = Inr (res, self', g')"
    and i: "i < length res" and j: "j < length res"
    and hi: "lower (risk_level (risk_assessment (res ! i))) = ''high''"
    and lo: "lower (risk_level (risk_assessment (res ! j))) = ''low''"
    and conf: "confidence_score (risk_assessment (res ! j))
               = confidence_score (risk_assessment (res ! i))"
    and vit: "vital_signs (risk_assessment (res ! j)) = vital_signs (risk_assessment (res ! i))"
    and tx: "timestamp (risk_assessment (res ! i)) = Some t"
    and ty: "timestamp (risk_assessment (res ! j)) = Some t"
    and now: "t \<le> now"
    and c: "1 / 9 < confidence_score (risk_assessment (res ! i))"
    and age: "0 \<le> age (vital_signs (risk_assessment (res ! i)))"
  shows "i < j"
proof -
  have "res ! j \<in> set res" using j by (rule nth_mem)
  with sched have adj: "rl_adjustment (res ! j) \<le> 10" using lo by (rule schedule_low_adjustment)
  have lt: "final_priority now (res ! j) < final_priority now (res ! i)"
    using hi lo conf vit tx ty now c age adj by (rule high_beats_low)
  have srt: "sorted_wrt (\<ge>) (map (final_priority now) res)"
    using sched by (rule schedule_descending)
  show ?thesis
    using srt by (rule sorted_wrt_ge_nth) (use i j lt in simp_all)
qed

section \<open>The queue of \<^verbatim>\<open>manage_patient_queue\<close>\<close>

lemma length_update_positions_and_waits:
  "length (update_positions_and_waits ps) = length ps"
  by (simp add: update_positions_and_waits_def)

lemma nth_update_positions_and_waits:
  "i < length ps \<Longrightarrow>
     update_positions_and_waits ps ! i =
       (ps ! i)\<lparr>queue_position := int i + 1,
                estimated_wait_time := calculate_estimated_wait_time (ps ! i) (int i)\<rparr>"
  by (simp add: update_positions_and_waits_def nth_enumerate_eq)

lemma manage_result:
  assumes "manage_patient_queue assessments file now g = Inr (q, g')"
  obtains self patients qi res self' where
    "schedule_patients_with_rl self patients qi now g = Inr (res, self', g')"
    and "q = update_positions_and_waits res"
  using assms
  by (auto simp add: manage_patient_queue_def calculate_dynamic_priority_def Let_def
      split: sum.splits)

lemma wait_time_ignores_position:
  "calculate_estimated_wait_time (p\<lparr>queue_position := x\<rparr>) i = calculate_estimated_wait_time p i"
  by (simp add: wait_time_cases)

text \<open>
  Claim C5, amended. In every queue returned by \<^verbatim>\<open>manage_patient_queue\<close> the entry at
  index \<open>i\<close> has the 1-based position \<open>p = i + 1\<close>, and its estimated wait is computed
  from the 0-based index: \<open>(p - 1) \<times> 15 - 10\<close> floored at 0 for a high label,
  \<open>(p - 1) \<times> 20\<close> for medium, \<open>(p - 1) \<times> 25\<close> for low and \<open>(p - 1) \<times> 20\<close> for any
  other label. So the head of the queue waits 0 whatever its label.
\<close>

theorem wait_time_by_position:
  assumes "manage_patient_queue assessments file now g = Inr (q, g')" and "i < length q"
  shows "queue_position (q ! i) = int i + 1
       \<and> estimated_wait_time (q ! i) =
           (if lower (risk_level (risk_assessment (q ! i))) = ''high''
            then max 0 ((queue_position (q ! i) - 1) * 15 - 10)
            else if lower (risk_level (risk_assessment (q ! i))) = ''medium''
            then (queue_position (q ! i) - 1) * 20
            else if lower (risk_level (risk_assessment (q ! i))) = ''low''
            then (queue_position (q ! i) - 1) * 25
            else (queue_position (q ! i) - 1) * 20)"
proof -
  from assms(1) obtain self patients qi res self' where
    q: "q = update_positions_and_waits res"
    by (rule manage_result)
  have i: "i < length res" using assms(2) unfolding q by (simp add: length_update_positions_and_waits)
  have qi: "q ! i = (res ! i)\<lparr>queue_position := int i + 1,
                estimated_wait_time := calculate_estimated_wait_time (res ! i) (int i)\<rparr>"
    unfolding q using i by (rule nth_update_positions_and_waits)
  show ?thesis unfolding qi by (simp add: wait_time_cases)
qed

text \<open>
  Claim C6, amended. In every queue returned by \<^verbatim>\<open>manage_patient_queue\<close>, whatever
  the Q-table and the random draws, and so whatever action is selected for the low-risk
  entry: a high-risk entry stands before a low-risk entry with the same confidence, the
  same vitals and the same creation time \<open>t \<le> now\<close>, provided the confidence exceeds
  \<open>1/9\<close> (as the classifier's fallback 0.8 does) and the age is not negative.
\<close>

theorem high_ranks_before_low:
  assumes "manage_patient_queue assessments file now g = Inr (q, g')"
    and i: "i < length q" and j: "j < length q"
    and hi: "lower (risk_level (risk_assessment (q ! i))) = ''high''"
    and lo: "lower (risk_level (risk_assessment (q ! j))) = ''low''"
    and conf: "confidence_score (risk_assessment (q ! j))
               = confidence_score (risk_assessment (q ! i))"
    and vit: "vital_signs (risk_assessment (q ! j)) = vital_signs (risk_assessment (q ! i))"
    and tx: "timestamp (risk_assessment (q ! i)) = Some t"
    and ty: "timestamp (risk_assessment (q ! j)) = Some t"
    and now: "t \<le> now"
    and c: "1 / 9 < confidence_score (risk_assessment (q ! i))"
    and age: "0 \<le> age (vital_signs (risk_assessment (q ! i)))"
  shows "i < j \<and> queue_position (q ! i) < queue_position (q ! j)"
proof -
  from assms(1) obtain self patients qi res self' where
    sched: "schedule_patients_with_rl self patients qi now g = Inr (res, self', g')"
    and q: "q = update_positions_and_waits res"
    by (rule manage_result)
  have i': "i < length res" and j': "j < length res"
    using i j unfolding q by (simp_all add: length_update_positions_and_waits)
  have ra: "risk_assessment (q ! i) = risk_assessment (res ! i)"
    "risk_assessment (q ! j) = risk_assessment (res ! j)"
    unfolding q using i' j' by (simp_all add: nth_update_positions_and_waits)
  have "i < j"
    using sched i' j' hi lo conf vit tx ty now c age unfolding ra
    by (rule schedule_high_before_low)
  moreover have "queue_position (q ! i) = int i + 1" "queue_position (q ! j) = int j + 1"
    unfolding q using i' j' by (simp_all add: nth_update_positions_and_waits)
  ultimately show ?thesis by simp
qed

section \<open>Evaluation on concrete queues\<close>

lemma map_eq_two:
  assumes "map F q = [a, b]"
  shows "length q = 2" and "F (q ! 0) = a" and "F (q ! 1) = b"
proof -
  from assms obtain x y where "q = [x, y]" by (auto simp add: map_eq_Cons_conv)
  with assms show "length q = 2" and "F (q ! 0) = a" and "F (q ! 1) = b" by simp_all
qed

lemma map_eq_three:
  assumes "map F q = [a, b, c]"
  shows "length q = 3" and "F (q ! 0) = a" and "F (q ! 1) = b" and "F (q ! 2) = c"
proof -
  from assms obtain x y z where "q = [x, y, z]" by (auto simp add: map_eq_Cons_conv)
  with assms show "length q = 3" and "F (q ! 0) = a" and "F (q ! 1) = b" and "F (q ! 2) = c"
    by simp_all
qed

lemma queue_view_entries:
  assumes "queue_view r = Inr v"
  obtains q g' where "r = Inr (q, g')" and "queue_entries r = q"
    and "map (\<lambda>p. (patient_id p, risk_level (risk_assessment p), queue_position p,
                    estimated_wait_time p)) q = v"
  using assms by (cases r) (auto simp add: queue_view_def queue_entries_def)

lemma queue_columns_entries:
  assumes "queue_columns r = Inr v"
  obtains q g' where "r = Inr (q, g')" and "queue_entries r = q"
    and "map (\<lambda>p. (lower (risk_level (risk_assessment p)),
                    confidence_score (risk_assessment p), vital_signs (risk_assessment p),
                    timestamp (risk_assessment p), queue_position p)) q = v"
  using assms by (cases r) (auto simp add: queue_columns_def queue_entries_def)

text \<open>
  Claim C5, as stated, fails: in the end-to-end scenario of the specification the
  estimates at positions 1, 2, 3 are 0, 20, 50, where position \<open>\<times>\<close> minutes per class
  gives \<open>max 0 (15 - 10) = 5\<close>, 40 and 75.
\<close>

theorem wait_time_counterexample:
  "queue_view (manage_patient_queue ra_scenario NoFile 0 rng_greedy) =
     Inr [(''patient_1_0'', ''High'', 1, 0),
          (''patient_2_0'', ''Medium'', 2, 20),
          (''patient_3_0'', ''Low'', 3, 50)]
   \<and> (0::int) \<noteq> max 0 (1 * 15 - 10) \<and> (20::int) \<noteq> 2 * 20 \<and> (50::int) \<noteq> 3 * 25"
  by code_simp

lemma scenario_view:
  "queue_view (manage_patient_queue ra_scenario NoFile 0 rng_greedy) =
     Inr [(''patient_1_0'', ''High'', 1, 0),
          (''patient_2_0'', ''Medium'', 2, 20),
          (''patient_3_0'', ''Low'', 3, 50)]"
  by code_simp

text \<open>The low-risk entry of the scenario, at position 3, waits \<open>2 \<times> 25\<close> minutes.\<close>

theorem wait_time_by_position_witness:
  "queue_position (queue_entries (manage_patient_queue ra_scenario NoFile 0 rng_greedy) ! 2) = 3
   \<and> estimated_wait_time
        (queue_entries (manage_patient_queue ra_scenario NoFile 0 rng_greedy) ! 2) = 50"
proof -
  let ?r = "manage_patient_queue ra_scenario NoFile 0 rng_greedy"
  from scenario_view obtain q g' where r: "?r = Inr (q, g')" and e: "queue_entries ?r = q"
    and v: "map (\<lambda>p. (patient_id p, risk_level (risk_assessment p), queue_position p,
                       estimated_wait_time p)) q
            = [(''patient_1_0'', ''High'', 1, 0), (''patient_2_0'', ''Medium'', 2, 20),
               (''patient_3_0'', ''Low'', 3, 50)]"
    by (rule queue_view_entries)
  note m = map_eq_three [OF v]
  from m(1) have len: "2 < length q" by simp
  from m(4) have low: "lower (risk_level (risk_assessment (q ! 2))) = ''low''"
    by (simp add: lower_Low)
  from wait_time_by_position [OF r len] low
  show ?thesis unfolding e by simp
qed

lemma pair_columns:
  "queue_columns (manage_patient_queue (ra_pair (4 / 5)) NoFile 600 rng_greedy) =
     Inr [(''high'', 4 / 5, vs_age 40, Some 0, 1), (''low'', 4 / 5, vs_age 40, Some 0, 2)]"
  by code_simp

text \<open>Confidence 0.8, ten minutes after admission, the low-risk patient admitted first.\<close>

theorem high_ranks_before_low_witness:
  "queue_position (queue_entries (manage_patient_queue (ra_pair (4 / 5)) NoFile 600 rng_greedy) ! 0)
     < queue_position
         (queue_entries (manage_patient_queue (ra_pair (4 / 5)) NoFile 600 rng_greedy) ! 1)"
proof -
  let ?r = "manage_patient_queue (ra_pair (4 / 5)) NoFile 600 rng_greedy"
  from pair_columns obtain q g' where r: "?r = Inr (q, g')" and e: "queue_entries ?r = q"
    and v: "map (\<lambda>p. (lower (risk_level (risk_assessment p)),
                    confidence_score (risk_assessment p), vital_signs (risk_assessment p),
                    timestamp (risk_assessment p), queue_position p)) q
            = [(''high'', 4 / 5, vs_age 40, Some 0, 1), (''low'', 4 / 5, vs_age 40, Some 0, 2)]"
    by (rule queue_columns_entries)
  note m = map_eq_two [OF v]
  have i: "0 < length q" and j: "1 < length q" using m(1) by simp_all
  have hi: "lower (risk_level (risk_assessment (q ! 0))) = ''high''" using m(2) by simp
  have lo: "lower (risk_level (risk_assessment (q ! 1))) = ''low''" using m(3) by simp
  have conf: "confidence_score (risk_assessment (q ! 1)) = confidence_score (risk_assessment (q ! 0))"
    using m(2,3) by simp
  have vit: "vital_signs (risk_assessment (q ! 1)) = vital_signs (risk_assessment (q ! 0))"
    using m(2,3) by simp
  have tx: "timestamp (risk_assessment (q ! 0)) = Some 0" using m(2) by simp
  have ty: "timestamp (risk_assessment (q ! 1)) = Some 0" using m(3) by simp
  have c: "1 / 9 < confidence_score (risk_assessment (q ! 0))" using m(2) by simp
  have age: "0 \<le> age (vital_signs (risk_assessment (q ! 0)))"
    using m(2) by (simp add: vs_age_def)
  from high_ranks_before_low [OF r i j hi lo conf vit tx ty _ c age]
  show ?thesis unfolding e by simp
qed

text \<open>
  Claim C6, as stated, fails at the default \<^verbatim>\<open>confidence_score\<close> of
  \<^verbatim>\<open>RiskAssessment\<close>, 0.0: both scores are 0, the action chosen on a new table is
  \<^verbatim>\<open>immediate\<close> with boost 10, and the low-risk entry is given position 1.
\<close>

theorem high_ranks_before_low_counterexample:
  "queue_columns (manage_patient_queue (ra_pair 0) NoFile 600 rng_greedy) =
     Inr [(''low'', 0, vs_age 40, Some 0, 1), (''high'', 0, vs_age 40, Some 0, 2)]"
  by code_simp

section \<open>Feedback\<close>

text \<open>
  Claim C4, amended. \<^verbatim>\<open>update_with_outcome\<close> appends the record to the history and
  leaves the scheduler, hence the Q-table, as it was: \<^verbatim>\<open>provide_feedback\<close> looks up no
  binding and issues no update, for any patient. The Q-table is written to
  \<^verbatim>\<open>q_table.json\<close> exactly when the history of this manager reaches a multiple of 10.
\<close>

theorem feedback_recorded:
  "rl_scheduler (fst (update_with_outcome pm pid oc now file)) = rl_scheduler pm
   \<and> patient_history (fst (update_with_outcome pm pid oc now file))
       = patient_history pm @ [(pid, oc, now)]
   \<and> (length (patient_history pm) mod 10 = 9
        \<longrightarrow> snd (update_with_outcome pm pid oc now file) = Saved (q_table (rl_scheduler pm)))
   \<and> (length (patient_history pm) mod 10 \<noteq> 9
        \<longrightarrow> snd (update_with_outcome pm pid oc now file) = file)"
proof -
  have "(Suc (length (patient_history pm)) mod 10 = 0) = (length (patient_history pm) mod 10 = 9)"
    by presburger
  then show ?thesis
    by (simp add: update_with_outcome_def provide_feedback_def save_q_table_def Let_def)
qed

text \<open>The tenth record of a manager saves its table; the first record of a new one does not.\<close>

theorem feedback_recorded_witness:
  "snd (update_with_outcome pm_nine ''patient_2_0'' oc_good 1800 NoFile)
     = Saved (q_table sched_prepopulated)
   \<and> length (patient_history (fst (update_with_outcome pm_nine ''patient_2_0'' oc_good 1800 NoFile)))
       = 10
   \<and> snd (update_with_outcome (init_manager NoFile) ''patient_2_0'' oc_good 1800 NoFile) = NoFile"
  using feedback_recorded [of pm_nine "''patient_2_0''" oc_good 1800 NoFile]
    feedback_recorded [of "init_manager NoFile" "''patient_2_0''" oc_good 1800 NoFile]
  by (simp add: pm_nine_def init_manager_def)

text \<open>
  Claim C4, as stated, fails. Scheduling the scenario binds the low-risk patient to the
  state \<^verbatim>\<open>low_7_3_1_evening\<close> and the action \<^verbatim>\<open>immediate\<close>. Feedback for that
  patient leaves the table of a new manager empty, while the Q-learning update for the
  binding with the reward of the outcome, \<open>9 + 2.5 = 11.5\<close>, would store 1.15.
\<close>

theorem feedback_update_counterexample:
  "binding_view (manage_patient_queue ra_scenario NoFile 0 rng_greedy) =
     Inr [(''patient_1_0'', None, None), (''patient_2_0'', None, None),
          (''patient_3_0'', Some ''low_7_3_1_evening'', Some ''immediate'')]
   \<and> q_table (rl_scheduler
        (fst (update_with_outcome (init_manager NoFile) ''patient_3_0'' oc_good 1800 NoFile))) = []
   \<and> table_of (update_q_value (init_scheduler NoFile) ''low_7_3_1_evening'' ''immediate''
        (23 / 2) ''low_7_3_1_evening'')
       = Inr [(''low_7_3_1_evening'',
               [(''immediate'', 23 / 20), (''delay_15'', 0), (''delay_30'', 0),
                (''delay_60'', 0), (''delay_120'', 0)])]"
  by code_simp

section \<open>Taking the next patient\<close>

text \<open>
  On an empty store the endpoint fails with a 404 of its own,
  \<^verbatim>\<open>No patients in queue\<close>, and no assessment that remains after a reply has the
  timestamp of the patient replied.
\<close>

lemma next_on_empty:
  "main_get_next_patient [] file now g = Inl (HTTPException 404 ''No patients in queue'')"
  by (simp add: main_get_next_patient_def)

lemma next_drops_timestamp:
  assumes "main_get_next_patient patient_assessments file now g = Inr (resp, remaining, g')"
  shows "r_timestamp resp \<notin> timestamp ` set remaining"
  using assms
  by (auto simp add: main_get_next_patient_def make_response_def
      split: if_splits sum.splits option.splits)

text \<open>
  Claim C3: taking the next patient removes exactly the single top entry and returns it.
  The code does not. It removes every stored assessment whose timestamp equals that of
  the top entry: of two patients created at the same instant the first is returned and
  the store is left empty, the second patient lost without being seen.
\<close>

theorem next_drops_same_timestamp:
  "next_view (main_get_next_patient ra_same_instant NoFile 600 rng_greedy)
     = Inr (''patient_1_0'', 9 / 10, 1, [])"
  by code_simp

text \<open>With distinct timestamps the other patient remains.\<close>

lemma next_staggered:
  "next_view (main_get_next_patient ra_staggered NoFile 600 rng_greedy)
     = Inr (''patient_1_0'', 9 / 10, 1, [4 / 5])"
  by code_simp

section \<open>When the queue is returned\<close>

text \<open>
  The queue functions raise in two cases only: an assessment without a timestamp, and a
  loaded table with an empty row. In every other case \<^verbatim>\<open>manage_patient_queue\<close>
  returns a queue, so the theorems above about its result are not empty.
\<close>

lemma rows_nonempty_iff: "rows_nonempty qt \<longleftrightarrow> (\<forall>row\<in>snd ` set qt. row \<noteq> [])"
  by (auto simp add: rows_nonempty_def list_all_iff)

lemma fresh_row_nonempty: "fresh_row \<noteq> []"
  by (simp add: fresh_row_def actions_def)

lemma list_all_update:
  "list_all P al \<Longrightarrow> P (k, v) \<Longrightarrow> list_all P (AList.update k v al)"
  by (induction al) auto

lemma rows_nonempty_ensure_state:
  assumes "rows_nonempty qt"
  shows "rows_nonempty (ensure_state qt s)"
proof (cases "map_of qt s")
  case None
  have "list_all (\<lambda>(state, row). row \<noteq> []) (AList.update s fresh_row qt)"
    using assms unfolding rows_nonempty_def
    by (rule list_all_update) (simp add: fresh_row_nonempty)
  then show ?thesis by (simp add: ensure_state_def None rows_nonempty_def)
next
  case (Some row)
  with assms show ?thesis by (simp add: ensure_state_def)
qed

lemma argmax_key_returns: "row \<noteq> [] \<Longrightarrow> \<exists>a. argmax_key row = Inr a"
  by (cases row) (simp_all add: argmax_key_def)

lemma choose_action_returns:
  assumes "rows_nonempty (q_table self)"
  shows "\<exists>a self'. choose_action self state g = Inr (a, self', rng_next g)
           \<and> rows_nonempty (q_table self')"
proof -
  let ?qt = "ensure_state (q_table self) state"
  have ok: "rows_nonempty ?qt" using assms by (rule rows_nonempty_ensure_state)
  obtain row where row: "map_of ?qt state = Some row"
    using map_of_ensure_state [of "q_table self" state] by blast
  then have "(state, row) \<in> set ?qt" by (rule map_of_SomeD)
  then have "row \<in> snd ` set ?qt" by force
  with ok have "row \<noteq> []" unfolding rows_nonempty_iff by blast
  then obtain a where a: "argmax_key row = Inr a" using argmax_key_returns by blast
  show ?thesis
    using row a ok by (cases "g 0") (simp add: choose_action_def Let_def)
qed

lemma rl_loop_returns:
  "rows_nonempty (q_table self) \<Longrightarrow>
     \<exists>qs self' g'. rl_loop self qi now ps g = Inr (qs, self', g')"
proof (induction ps arbitrary: self g)
  case Nil
  then show ?case by simp
next
  case (Cons p ps)
  show ?case
  proof (cases "lower (risk_level (risk_assessment p)) = ''low''")
    case False
    from Cons.IH [OF Cons.prems, of g] obtain qs self' g' where
      "rl_loop self qi now ps g = Inr (qs, self', g')" by blast
    with False show ?thesis by simp
  next
    case True
    from choose_action_returns [OF Cons.prems, of "get_state p qi now" g]
    obtain a self1 where ch: "choose_action self (get_state p qi now) g = Inr (a, self1, rng_next g)"
      and ok: "rows_nonempty (q_table self1)" by blast
    from Cons.IH [OF ok, of "rng_next g"] obtain qs self' g' where
      "rl_loop self1 qi now ps (rng_next g) = Inr (qs, self', g')" by blast
    with True ch show ?thesis by (simp add: Let_def)
  qed
qed

lemma schedule_returns:
  assumes "rows_nonempty (q_table self)"
  shows "\<exists>res self' g'. schedule_patients_with_rl self patients qi now g = Inr (res, self', g')"
proof -
  from rl_loop_returns [OF assms, of qi now patients g] obtain qs self' g' where
    "rl_loop self qi now patients g = Inr (qs, self', g')" by blast
  then show ?thesis by (simp add: schedule_patients_with_rl_def)
qed

lemma make_queue_items_returns:
  "\<forall>a\<in>set assessments. timestamp a \<noteq> None \<Longrightarrow> \<exists>items. make_queue_items i assessments = Inr items"
proof (induction assessments arbitrary: i)
  case Nil
  then show ?case by simp
next
  case (Cons a as)
  then obtain ts where ts: "timestamp a = Some ts" by auto
  from Cons obtain items where "make_queue_items (Suc i) as = Inr items" by fastforce
  with ts show ?case by simp
qed

lemma rows_nonempty_init:
  assumes "case stored of Saved t \<Rightarrow> rows_nonempty t | _ \<Rightarrow> True"
  shows "rows_nonempty (q_table (rl_scheduler (init_manager stored)))"
  using assms
  by (cases stored) (simp_all add: init_manager_def init_scheduler_def load_q_table_def rows_nonempty_def)

lemma manage_patient_queue_returns:
  assumes "\<forall>a\<in>set assessments. timestamp a \<noteq> None"
    and "case file of Saved t \<Rightarrow> rows_nonempty t | _ \<Rightarrow> True"
  shows "\<exists>q g'. manage_patient_queue assessments file now g = Inr (q, g')"
proof -
  from make_queue_items_returns [OF assms(1), of 0] obtain items where
    items: "make_queue_items 0 assessments = Inr items" by blast
  let ?ps = "map (\<lambda>p. p\<lparr>risk_assessment :=
                     snd (calculate_priority_score (risk_assessment p) now)\<rparr>) items"
  from schedule_returns [OF rows_nonempty_init [OF assms(2)], of ?ps "make_queue_info items" now g]
  obtain res self' g' where
    "schedule_patients_with_rl (rl_scheduler (init_manager file)) ?ps (make_queue_info items) now g
       = Inr (res, self', g')" by blast
  with items show ?thesis
    by (simp add: manage_patient_queue_def calculate_dynamic_priority_def Let_def)
qed

section \<open>The second scheduling of \<^verbatim>\<open>GET /queue/next/\<close>\<close>

text \<open>
  The endpoint schedules the sorted queue once more. When the first pass has put the
  later patient first (actions \<^verbatim>\<open>delay_120\<close> and \<^verbatim>\<open>immediate\<close>) and the second
  pass gives both the same final priority (action \<^verbatim>\<open>delay_30\<close> twice), the stable sort
  keeps that order and the patient created later is taken first.
\<close>

lemma low_tie_queue:
  "binding_view (manage_patient_queue ra_low_tie NoFile 1200 rng_exploring) =
     Inr [(''patient_2_600'', Some ''low_0_2_0_evening'', Some ''immediate''),
          (''patient_1_0'', Some ''low_0_2_0_evening'', Some ''delay_120'')]"
  by code_simp

lemma next_takes_later_of_tie:
  "next_times (main_get_next_patient ra_low_tie NoFile 1200 rng_exploring)
     = Inr (''patient_2_600'', Some 600, [Some 0])"
  by code_simp

section \<open>What \<^verbatim>\<open>GET /queue/next/\<close> removes\<close>

text \<open>
  When the stored assessments have pairwise distinct timestamps, a reply of the endpoint
  removes exactly one of them: the defect shown above needs two equal timestamps.
\<close>

lemma filter_removes_one:
  "distinct (map f xs) \<Longrightarrow> v \<in> f ` set xs
     \<Longrightarrow> length (filter (\<lambda>x. f x \<noteq> v) xs) = length xs - 1"
proof (induction xs)
  case Nil
  then show ?case by simp
next
  case (Cons x xs)
  show ?case
  proof (cases "f x = v")
    case True
    have "f x \<notin> f ` set xs" using Cons.prems(1) by simp
    then have "\<forall>y\<in>set xs. f y \<noteq> v" using True by (metis imageI)
    then have "filter (\<lambda>x. f x \<noteq> v) xs = xs" by (simp add: filter_id_conv)
    with True show ?thesis by simp
  next
    case False
    with Cons.prems have "distinct (map f xs)" "v \<in> f ` set xs" by auto
    from Cons.IH [OF this] have "length (filter (\<lambda>x. f x \<noteq> v) xs) = length xs - 1" .
    moreover have "xs \<noteq> []" using \<open>v \<in> f ` set xs\<close> by auto
    ultimately show ?thesis using False by (cases xs) simp_all
  qed
qed

lemma make_queue_items_assessments:
  "make_queue_items i assessments = Inr items \<Longrightarrow>
     map risk_assessment items = assessments \<and> (\<forall>a\<in>set assessments. timestamp a \<noteq> None)"
proof (induction assessments arbitrary: i items)
  case Nil
  then show ?case by simp
next
  case (Cons a as)
  from Cons.prems obtain ts rest where ts: "timestamp a = Some ts"
    and rest: "make_queue_items (Suc i) as = Inr rest"
    and items: "items = \<lparr>patient_id = make_patient_id i ts, risk_assessment = a,
                     queue_position = 0, estimated_wait_time = 0, rl_adjustment = 0,
                     rl_state = None, rl_action = None\<rparr> # rest"
    by (cases "timestamp a"; cases "make_queue_items (Suc i) as") auto
  from Cons.IH [OF rest] ts show ?case unfolding items by simp
qed

lemma assessments_assign_positions:
  "map risk_assessment (assign_positions ps) = map risk_assessment ps"
  by (rule nth_equalityI) (simp_all add: length_assign_positions nth_assign_positions)

lemma assessments_update_positions_and_waits:
  "map risk_assessment (update_positions_and_waits ps) = map risk_assessment ps"
  by (rule nth_equalityI)
     (simp_all add: length_update_positions_and_waits nth_update_positions_and_waits)

lemma timestamps_of_list:
  "(\<lambda>p. timestamp (risk_assessment p)) ` set ps = timestamp ` set (map risk_assessment ps)"
  by (simp add: image_image)

lemma timestamp_after_key:
  "timestamp (risk_assessment q) \<noteq> None \<Longrightarrow>
     timestamp (risk_assessment (snd (get_final_priority q now))) = timestamp (risk_assessment q)"
  by (auto simp add: snd_get_final_priority timestamp_after_scoring)

lemma schedule_timestamps:
  assumes sched: "schedule_patients_with_rl self patients qi now g = Inr (res, self', g')"
    and stamped: "\<forall>p\<in>set patients. timestamp (risk_assessment p) \<noteq> None"
  shows "(\<lambda>p. timestamp (risk_assessment p)) ` set res
           = (\<lambda>p. timestamp (risk_assessment p)) ` set patients"
proof -
  from sched obtain qs where loop: "rl_loop self qi now patients g = Inr (qs, self', g')"
    and res: "res = assign_positions (sort_by_final_priority now qs)"
    by (rule schedule_result)
  have same: "map risk_assessment qs = map risk_assessment patients"
    using rl_loop_result [OF loop] by (rule conjunct1)
  have in_qs: "(\<lambda>p. timestamp (risk_assessment p)) ` set qs
                 = (\<lambda>p. timestamp (risk_assessment p)) ` set patients"
    unfolding timestamps_of_list same ..
  then have stamped_qs: "\<forall>q\<in>set qs. timestamp (risk_assessment q) \<noteq> None"
    using stamped by (metis (mono_tags, lifting) image_iff)
  have "(\<lambda>p. timestamp (risk_assessment p)) ` set res
          = (\<lambda>p. timestamp (risk_assessment p)) ` set (sort_by_final_priority now qs)"
    unfolding res timestamps_of_list assessments_assign_positions ..
  also have "\<dots> = (\<lambda>q. timestamp (risk_assessment (snd (get_final_priority q now)))) ` set qs"
    unfolding set_sort_by_final_priority by (simp add: image_image)
  also have "\<dots> = (\<lambda>p. timestamp (risk_assessment p)) ` set qs"
    using stamped_qs by (intro image_cong refl) (simp add: timestamp_after_key)
  finally show ?thesis unfolding in_qs .
qed

lemma dynamic_priority_timestamps:
  assumes "calculate_dynamic_priority pm patients now g = Inr (res, pm', g')"
    and stamped: "\<forall>p\<in>set patients. timestamp (risk_assessment p) \<noteq> None"
  shows "(\<lambda>p. timestamp (risk_assessment p)) ` set res
           = (\<lambda>p. timestamp (risk_assessment p)) ` set patients"
proof -
  let ?ps = "map (\<lambda>p. p\<lparr>risk_assessment :=
                     snd (calculate_priority_score (risk_assessment p) now)\<rparr>) patients"
  from assms(1) obtain sched' where
    sched: "schedule_patients_with_rl (rl_scheduler pm) ?ps (make_queue_info patients) now g
              = Inr (res, sched', g')"
    by (auto simp add: calculate_dynamic_priority_def Let_def split: sum.splits)
  have keep: "\<And>p. p \<in> set patients \<Longrightarrow>
      timestamp (snd (calculate_priority_score (risk_assessment p) now))
        = timestamp (risk_assessment p)"
    using stamped by (auto simp add: timestamp_after_scoring)
  have ps: "(\<lambda>p. timestamp (risk_assessment p)) ` set ?ps
              = (\<lambda>p. timestamp (risk_assessment p)) ` set patients"
    by (simp add: image_image keep cong: image_cong)
  then have "\<forall>p\<in>set ?ps. timestamp (risk_assessment p) \<noteq> None"
    using stamped by (metis (mono_tags, lifting) image_iff)
  from schedule_timestamps [OF sched this] show ?thesis unfolding ps .
qed

lemma manage_timestamps:
  assumes "manage_patient_queue assessments file now g = Inr (q, g')"
  shows "(\<lambda>p. timestamp (risk_assessment p)) ` set q = timestamp ` set assessments"
    and "\<forall>a\<in>set assessments. timestamp a \<noteq> None"
proof -
  from assms obtain items res pm' where
    items: "make_queue_items 0 assessments = Inr items"
    and dyn: "calculate_dynamic_priority (init_manager file) items now g = Inr (res, pm', g')"
    and q: "q = update_positions_and_waits res"
    by (auto simp add: manage_patient_queue_def Let_def split: sum.splits)
  note it = make_queue_items_assessments [OF items]
  from it show stamped: "\<forall>a\<in>set assessments. timestamp a \<noteq> None" by simp
  have its: "(\<lambda>p. timestamp (risk_assessment p)) ` set items = timestamp ` set assessments"
    unfolding timestamps_of_list using it by simp
  then have "\<forall>p\<in>set items. timestamp (risk_assessment p) \<noteq> None"
    using stamped by (metis (mono_tags, lifting) image_iff)
  from dynamic_priority_timestamps [OF dyn this]
  have "(\<lambda>p. timestamp (risk_assessment p)) ` set res = timestamp ` set assessments"
    unfolding its .
  then show "(\<lambda>p. timestamp (risk_assessment p)) ` set q = timestamp ` set assessments"
    unfolding q timestamps_of_list assessments_update_positions_and_waits .
qed

lemma timestamps_rescored:
  "\<forall>a\<in>set assessments. timestamp a \<noteq> None
     \<Longrightarrow> map timestamp (rescored now assessments) = map timestamp assessments"
  by (auto simp add: rescored_def timestamp_after_scoring)

lemma next_removes_one_when_distinct:
  assumes "main_get_next_patient patient_assessments file now g = Inr (resp, remaining, g')"
    and "distinct (map timestamp patient_assessments)"
  shows "length remaining = length patient_assessments - 1"
proof -
  from assms(1) obtain current g1 next_patient pm' where
    man: "manage_patient_queue patient_assessments file now g = Inr (current, g1)"
    and nxt: "get_next_patient (init_manager file) current now g1
                = Inr (Some next_patient, pm', g')"
    and rem: "remaining = filter (\<lambda>a. timestamp a \<noteq> timestamp (risk_assessment next_patient))
                            (rescored now patient_assessments)"
    by (auto simp add: main_get_next_patient_def split: if_splits sum.splits option.splits)
  note ts = manage_timestamps [OF man]
  have cur: "\<forall>p\<in>set current. timestamp (risk_assessment p) \<noteq> None"
    using ts by (metis (mono_tags, lifting) image_iff)
  from nxt obtain res where
    dyn: "calculate_dynamic_priority (init_manager file) current now g1 = Inr (res, pm', g')"
    and hd: "next_patient \<in> set res"
    by (auto simp add: get_next_patient_def split: if_splits sum.splits list.splits)
  from dynamic_priority_timestamps [OF dyn cur] hd ts(1)
  have mem: "timestamp (risk_assessment next_patient) \<in> timestamp ` set patient_assessments"
    by blast
  have eq: "map timestamp (rescored now patient_assessments) = map timestamp patient_assessments"
    using ts(2) by (rule timestamps_rescored)
  have d: "distinct (map timestamp (rescored now patient_assessments))"
    unfolding eq by (rule assms(2))
  have "timestamp ` set (rescored now patient_assessments)
          = set (map timestamp (rescored now patient_assessments))"
    by simp
  also have "\<dots> = timestamp ` set patient_assessments" unfolding eq by simp
  finally have m: "timestamp (risk_assessment next_patient)
                     \<in> timestamp ` set (rescored now patient_assessments)"
    using mem by simp
  have l: "length (rescored now patient_assessments) = length patient_assessments"
    by (simp add: rescored_def)
  from filter_removes_one [OF d m] show ?thesis unfolding rem l .
qed

section \<open>The stable sort as a rearrangement\<close>

lemma insort_key_map:
  "insort_key f (g x) (map g ys) = map g (insort_key (\<lambda>y. f (g y)) x ys)"
  by (induction ys) simp_all

lemma sort_key_map:
  "sort_key f (map g xs) = map g (sort_key (\<lambda>y. f (g y)) xs)"
  by (induction xs) (simp_all add: insort_key_map)

lemma sort_key_stable_permutation:
  fixes f :: "'a \<Rightarrow> 'k::linorder"
  shows "\<exists>\<pi>. bij_betw \<pi> {..<length xs} {..<length xs}
           \<and> (\<forall>i<length xs. sort_key f xs ! i = xs ! \<pi> i)
           \<and> (\<forall>i j. i < j \<and> j < length xs \<and> f (xs ! \<pi> i) = f (xs ! \<pi> j) \<longrightarrow> \<pi> i < \<pi> j)"
proof -
  let ?ys = "enumerate 0 xs"
  let ?k = "\<lambda>y :: nat \<times> 'a. f (snd y)"
  let ?S = "sort_key ?k ?ys"
  let ?\<pi> = "\<lambda>i. map fst ?S ! i"
  have lenS: "length ?S = length xs" by simp
  have setS: "set ?S = set ?ys" by simp
  have sorted: "sort_key f xs = map snd ?S"
    using sort_key_map [of f snd ?ys] by simp
  have entry: "fst (?S ! i) < length xs \<and> snd (?S ! i) = xs ! fst (?S ! i)"
    if "i < length xs" for i
  proof -
    from that have "?S ! i \<in> set ?S" by (simp only: lenS [symmetric] nth_mem)
    then have "?S ! i \<in> set ?ys" by (simp only: setS)
    then show ?thesis by (simp add: in_set_enumerate_eq)
  qed
  have pi: "?\<pi> i = fst (?S ! i)" if "i < length xs" for i
    using that by simp
  have "distinct (map fst ?ys)" by simp
  then have inj: "inj_on fst (set ?ys)" by (simp only: distinct_map)
  have "distinct ?S" by (simp only: distinct_sort distinct_enumerate)
  with inj have d: "distinct (map fst ?S)" by (simp only: distinct_map setS simp_thms)
  have "set (map fst ?S) = set (map fst ?ys)" by (simp only: set_map setS)
  then have s: "set (map fst ?S) = {..<length xs}" by (simp add: atLeast0LessThan)
  have "bij_betw ((!) (map fst ?S)) {..<length (map fst ?S)} (set (map fst ?S))"
    using d by (rule bij_betw_nth) simp_all
  then have bij: "bij_betw ?\<pi> {..<length xs} {..<length xs}"
    unfolding s by simp
  have nth: "sort_key f xs ! i = xs ! ?\<pi> i" if "i < length xs" for i
    unfolding sorted using that entry [OF that] by simp
  have stable: "?\<pi> i < ?\<pi> j"
    if ij: "i < j" "j < length xs" and tie: "f (xs ! ?\<pi> i) = f (xs ! ?\<pi> j)" for i j
  proof -
    have i: "i < length xs" using ij by simp
    have eq: "?k (?S ! i) = ?k (?S ! j)"
      using tie entry [OF i] entry [OF ij(2)] pi [OF i] pi [OF ij(2)] by simp
    let ?P = "\<lambda>y. ?k y = ?k (?S ! j)"
    have j: "j < length ?S" using ij(2) by simp
    have "sorted_wrt (<) (map fst ?ys)" by simp
    then have "sorted_wrt (\<lambda>a b. fst a < fst b) ?ys" by (simp only: sorted_wrt_map)
    then have "sorted_wrt (\<lambda>a b. fst a < fst b) (filter ?P ?ys)" by (rule sorted_wrt_filter)
    then have "sorted_wrt (\<lambda>a b. fst a < fst b) (filter ?P ?S)"
      by (simp only: sort_key_stable)
    from sorted_wrt_filter_nth [OF this ij(1) j eq refl]
    have "fst (?S ! i) < fst (?S ! j)" .
    then show ?thesis unfolding pi [OF i] pi [OF ij(2)] .
  qed
  show ?thesis
  proof (intro exI conjI allI impI)
    show "bij_betw ?\<pi> {..<length xs} {..<length xs}" by (rule bij)
    show "sort_key f xs ! i = xs ! ?\<pi> i" if "i < length xs" for i using that by (rule nth)
    show "?\<pi> i < ?\<pi> j"
      if "i < j \<and> j < length xs \<and> f (xs ! ?\<pi> i) = f (xs ! ?\<pi> j)" for i j
      using that stable [of i j] by blast
  qed
qed

lemma sort_by_final_priority_permutation:
  "\<exists>\<pi>. bij_betw \<pi> {..<length qs} {..<length qs}
     \<and> (\<forall>i<length qs. sort_by_final_priority now qs ! i = snd (get_final_priority (qs ! \<pi> i) now))
     \<and> (\<forall>i j. i < j \<and> j < length qs
              \<and> final_priority now (sort_by_final_priority now qs ! i)
                = final_priority now (sort_by_final_priority now qs ! j) \<longrightarrow> \<pi> i < \<pi> j)"
proof -
  let ?f = "\<lambda>kp :: real \<times> PatientQueue. - fst kp"
  let ?K = "map (\<lambda>p. get_final_priority p now) qs"
  have len: "length ?K = length qs" by simp
  from sort_key_stable_permutation [of ?K ?f] obtain \<pi> where
    all: "bij_betw \<pi> {..<length ?K} {..<length ?K}
           \<and> (\<forall>i<length ?K. sort_key ?f ?K ! i = ?K ! \<pi> i)
           \<and> (\<forall>i j. i < j \<and> j < length ?K \<and> ?f (?K ! \<pi> i) = ?f (?K ! \<pi> j) \<longrightarrow> \<pi> i < \<pi> j)" ..
  from all have bij: "bij_betw \<pi> {..<length qs} {..<length qs}" unfolding len by (rule conjunct1)
  from all have nth: "\<forall>i<length qs. sort_key ?f ?K ! i = ?K ! \<pi> i" unfolding len by blast
  from all have stable: "\<forall>i j. i < j \<and> j < length qs \<and> ?f (?K ! \<pi> i) = ?f (?K ! \<pi> j) \<longrightarrow> \<pi> i < \<pi> j"
    unfolding len by blast
  have range: "\<pi> i < length qs" if "i < length qs" for i
    using bij that by (auto simp add: bij_betw_def)
  have key: "sort_key ?f ?K ! i = get_final_priority (qs ! \<pi> i) now" if "i < length qs" for i
    using nth that range [OF that] by simp
  have entry: "sort_by_final_priority now qs ! i = snd (get_final_priority (qs ! \<pi> i) now)"
    if "i < length qs" for i
    using key [OF that] that by (simp add: sort_by_final_priority_def)
  have prio: "final_priority now (sort_by_final_priority now qs ! i)
                = fst (get_final_priority (qs ! \<pi> i) now)" if "i < length qs" for i
    unfolding entry [OF that] by (rule final_priority_after_key)
  have tie: "\<pi> i < \<pi> j"
    if ij: "i < j" "j < length qs"
      and eq: "final_priority now (sort_by_final_priority now qs ! i)
               = final_priority now (sort_by_final_priority now qs ! j)" for i j
  proof -
    have i: "i < length qs" using ij by simp
    have "fst (get_final_priority (qs ! \<pi> i) now) = fst (get_final_priority (qs ! \<pi> j) now)"
      using eq unfolding prio [OF i] prio [OF ij(2)] .
    then have "?f (?K ! \<pi> i) = ?f (?K ! \<pi> j)"
      using range [OF i] range [OF ij(2)] by simp
    with ij stable show ?thesis by blast
  qed
  show ?thesis
  proof (intro exI conjI allI impI)
    show "bij_betw \<pi> {..<length qs} {..<length qs}" by (rule bij)
    show "sort_by_final_priority now qs ! i = snd (get_final_priority (qs ! \<pi> i) now)"
      if "i < length qs" for i using that by (rule entry)
    show "\<pi> i < \<pi> j"
      if "i < j \<and> j < length qs
          \<and> final_priority now (sort_by_final_priority now qs ! i)
            = final_priority now (sort_by_final_priority now qs ! j)" for i j
      using that tie [of i j] by blast
  qed
qed


section \<open>The schedule as a rearrangement of its input\<close>

lemma patient_id_apply: "patient_id (apply_action_to_patient a p) = patient_id p"
  by (simp add: apply_action_to_patient_def Let_def)

lemma rl_loop_ids:
  "rl_loop self qi now ps g = Inr (qs, self', g') \<Longrightarrow> map patient_id qs = map patient_id ps"
proof (induction ps arbitrary: self g qs self' g')
  case Nil
  then show ?case by simp
next
  case (Cons p ps)
  show ?case
  proof (cases "lower (risk_level (risk_assessment p)) = ''low''")
    case False
    with Cons.prems obtain rest where
      rec: "rl_loop self qi now ps g = Inr (rest, self', g')" and qs: "qs = p # rest"
      by (auto split: sum.splits)
    from Cons.IH [OF rec] show ?thesis unfolding qs by simp
  next
    case True
    let ?state = "get_state p qi now"
    from Cons.prems True obtain a self1 g1 rest where
      rec: "rl_loop self1 qi now ps g1 = Inr (rest, self', g')"
      and qs: "qs = (apply_action_to_patient a p)\<lparr>rl_state := Some ?state, rl_action := Some a\<rparr>
                    # rest"
      by (auto simp add: Let_def split: sum.splits)
    from Cons.IH [OF rec] show ?thesis unfolding qs by (simp add: patient_id_apply)
  qed
qed

lemma schedule_length:
  assumes "schedule_patients_with_rl self patients qi now g = Inr (res, self', g')"
  shows "length res = length patients"
proof -
  from assms obtain qs where loop: "rl_loop self qi now patients g = Inr (qs, self', g')"
    and res: "res = assign_positions (sort_by_final_priority now qs)"
    by (rule schedule_result)
  show ?thesis
    unfolding res
    by (simp add: length_assign_positions length_sort_by_final_priority rl_loop_length [OF loop])
qed

lemma schedule_positions:
  assumes "schedule_patients_with_rl self patients qi now g = Inr (res, self', g')"
  shows "map queue_position res = map (\<lambda>i. int i + 1) [0..<length patients]"
proof -
  from assms obtain qs where loop: "rl_loop self qi now patients g = Inr (qs, self', g')"
    and res: "res = assign_positions (sort_by_final_priority now qs)"
    by (rule schedule_result)
  show ?thesis
    unfolding res positions_assign_positions
    by (simp add: length_sort_by_final_priority rl_loop_length [OF loop])
qed

lemma schedule_permutation:
  assumes "schedule_patients_with_rl self patients qi now g = Inr (res, self', g')"
  shows "\<exists>\<pi>. bij_betw \<pi> {..<length patients} {..<length patients}
           \<and> (\<forall>i<length patients.
                 patient_id (res ! i) = patient_id (patients ! \<pi> i)
                 \<and> risk_assessment (res ! i)
                   = snd (calculate_priority_score (risk_assessment (patients ! \<pi> i)) now))
           \<and> (\<forall>i j. i < j \<and> j < length patients
                    \<and> final_priority now (res ! i) = final_priority now (res ! j)
                  \<longrightarrow> \<pi> i < \<pi> j)"
proof -
  from assms obtain qs where loop: "rl_loop self qi now patients g = Inr (qs, self', g')"
    and res: "res = assign_positions (sort_by_final_priority now qs)"
    by (rule schedule_result)
  let ?S = "sort_by_final_priority now qs"
  have len: "length qs = length patients" using loop by (rule rl_loop_length)
  have lenS: "length ?S = length patients" by (simp add: length_sort_by_final_priority len)
  have ids: "map patient_id qs = map patient_id patients" using loop by (rule rl_loop_ids)
  have ras: "map risk_assessment qs = map risk_assessment patients"
    using rl_loop_result [OF loop] by (rule conjunct1)
  have id_nth: "patient_id (qs ! k) = patient_id (patients ! k)" if "k < length patients" for k
  proof -
    have "patient_id (qs ! k) = map patient_id qs ! k" using that len by simp
    also have "\<dots> = patient_id (patients ! k)" unfolding ids using that by simp
    finally show ?thesis .
  qed
  have ra_nth: "risk_assessment (qs ! k) = risk_assessment (patients ! k)"
    if "k < length patients" for k
  proof -
    have "risk_assessment (qs ! k) = map risk_assessment qs ! k" using that len by simp
    also have "\<dots> = risk_assessment (patients ! k)" unfolding ras using that by simp
    finally show ?thesis .
  qed
  from sort_by_final_priority_permutation [of qs now] obtain \<pi> where
    all: "bij_betw \<pi> {..<length qs} {..<length qs}
          \<and> (\<forall>i<length qs. ?S ! i = snd (get_final_priority (qs ! \<pi> i) now))
          \<and> (\<forall>i j. i < j \<and> j < length qs
                   \<and> final_priority now (?S ! i) = final_priority now (?S ! j) \<longrightarrow> \<pi> i < \<pi> j)" ..
  from all have bij: "bij_betw \<pi> {..<length patients} {..<length patients}"
    unfolding len by (rule conjunct1)
  from all have nth: "\<forall>i<length patients. ?S ! i = snd (get_final_priority (qs ! \<pi> i) now)"
    unfolding len by blast
  from all have stable: "\<forall>i j. i < j \<and> j < length patients
        \<and> final_priority now (?S ! i) = final_priority now (?S ! j) \<longrightarrow> \<pi> i < \<pi> j"
    unfolding len by blast
  have range: "\<pi> i < length patients" if "i < length patients" for i
    using bij that by (auto simp add: bij_betw_def)
  have entry: "res ! i = (snd (get_final_priority (qs ! \<pi> i) now))\<lparr>queue_position := int i + 1\<rparr>"
    if "i < length patients" for i
    unfolding res using that nth lenS by (simp add: nth_assign_positions)
  have prio: "final_priority now (res ! i) = final_priority now (?S ! i)"
    if "i < length patients" for i
    unfolding res using that lenS
    by (simp add: nth_assign_positions final_priority_ignores_position)
  show ?thesis
  proof (intro exI conjI allI impI)
    show "bij_betw \<pi> {..<length patients} {..<length patients}" by (rule bij)
    show "patient_id (res ! i) = patient_id (patients ! \<pi> i)" if "i < length patients" for i
      unfolding entry [OF that] using id_nth [OF range [OF that]]
      by (simp add: snd_get_final_priority)
    show "risk_assessment (res ! i)
            = snd (calculate_priority_score (risk_assessment (patients ! \<pi> i)) now)"
      if "i < length patients" for i
      unfolding entry [OF that] using ra_nth [OF range [OF that]]
      by (simp add: snd_get_final_priority)
    show "\<pi> i < \<pi> j"
      if h: "i < j \<and> j < length patients
             \<and> final_priority now (res ! i) = final_priority now (res ! j)" for i j
    proof -
      from h have i: "i < length patients" and j: "j < length patients" by simp_all
      from h have "final_priority now (?S ! i) = final_priority now (?S ! j)"
        unfolding prio [OF i] prio [OF j] by simp
      with h stable show ?thesis by blast
    qed
  qed
qed

lemma created_not_after_admitted:
  "created_not_after p q = admitted_not_after (risk_assessment p) (risk_assessment q)"
  by (simp add: created_not_after_def admitted_not_after_def)

lemma admitted_not_after_scored:
  assumes "admitted_not_after a b"
  shows "admitted_not_after (snd (calculate_priority_score a now))
           (snd (calculate_priority_score b now))"
proof -
  from assms obtain x y where "timestamp a = Some x" "timestamp b = Some y" "x \<le> y"
    by (auto simp add: admitted_not_after_def split: option.splits)
  then show ?thesis by (simp add: admitted_not_after_def timestamp_after_scoring)
qed

lemma scored_stamped:
  "timestamp a = Some ts \<Longrightarrow>
     snd (calculate_priority_score a now)
       = a\<lparr>priority_score := fst (calculate_priority_score a now)\<rparr>"
  by (simp add: snd_score snd_urgency)

lemma scoring_idem:
  "snd (calculate_priority_score (snd (calculate_priority_score a now)) now)
     = snd (calculate_priority_score a now)"
proof -
  let ?a = "snd (calculate_priority_score a now)"
  obtain ts where ts: "timestamp ?a = Some ts"
    by (cases "timestamp a") (simp_all add: snd_score snd_urgency)
  have "snd (calculate_priority_score ?a now)
          = ?a\<lparr>priority_score := fst (calculate_priority_score ?a now)\<rparr>"
    using ts by (rule scored_stamped)
  also have "\<dots> = ?a\<lparr>priority_score := fst (calculate_priority_score a now)\<rparr>"
    by (simp only: score_after_scoring)
  also have "\<dots> = ?a" by (simp add: snd_score)
  finally show ?thesis .
qed

lemma schedule_stable:
  assumes sched: "schedule_patients_with_rl self patients qi now g = Inr (res, self', g')"
  shows "length res = length patients
       \<and> map queue_position res = map (\<lambda>i. int i + 1) [0..<length patients]
       \<and> sorted_wrt (\<ge>) (map (final_priority now) res)
       \<and> (\<exists>\<pi>. bij_betw \<pi> {..<length patients} {..<length patients}
             \<and> (\<forall>i<length patients.
                   patient_id (res ! i) = patient_id (patients ! \<pi> i)
                   \<and> risk_assessment (res ! i)
                     = snd (calculate_priority_score (risk_assessment (patients ! \<pi> i)) now))
             \<and> (\<forall>i j. i < j \<and> j < length patients
                      \<and> final_priority now (res ! i) = final_priority now (res ! j)
                    \<longrightarrow> \<pi> i < \<pi> j))
       \<and> (sorted_wrt created_not_after patients \<longrightarrow>
            (\<forall>i j. i < j \<and> j < length patients
                   \<and> final_priority now (res ! i) = final_priority now (res ! j)
                 \<longrightarrow> created_not_after (res ! i) (res ! j)))"
proof -
  from schedule_permutation [OF sched] obtain \<pi> where
    bij: "bij_betw \<pi> {..<length patients} {..<length patients}"
    and entry: "\<forall>i<length patients.
                 patient_id (res ! i) = patient_id (patients ! \<pi> i)
                 \<and> risk_assessment (res ! i)
                   = snd (calculate_priority_score (risk_assessment (patients ! \<pi> i)) now)"
    and stable: "\<forall>i j. i < j \<and> j < length patients
                    \<and> final_priority now (res ! i) = final_priority now (res ! j)
                  \<longrightarrow> \<pi> i < \<pi> j"
    by blast
  have range: "\<pi> i < length patients" if "i < length patients" for i
    using bij that by (auto simp add: bij_betw_def)
  have fifo: "created_not_after (res ! i) (res ! j)"
    if inp: "sorted_wrt created_not_after patients"
      and h: "i < j \<and> j < length patients
              \<and> final_priority now (res ! i) = final_priority now (res ! j)" for i j
  proof -
    from h have i: "i < length patients" and j: "j < length patients" by simp_all
    from h stable have less: "\<pi> i < \<pi> j" by blast
    from inp less range [OF j] have "created_not_after (patients ! \<pi> i) (patients ! \<pi> j)"
      by (rule sorted_wrt_nth_less)
    then have "admitted_not_after (risk_assessment (patients ! \<pi> i))
                 (risk_assessment (patients ! \<pi> j))"
      by (simp only: created_not_after_admitted)
    then have "admitted_not_after
                 (snd (calculate_priority_score (risk_assessment (patients ! \<pi> i)) now))
                 (snd (calculate_priority_score (risk_assessment (patients ! \<pi> j)) now))"
      by (rule admitted_not_after_scored)
    then show ?thesis
      unfolding created_not_after_admitted using entry i j by simp
  qed
  have perm: "\<exists>\<pi>. bij_betw \<pi> {..<length patients} {..<length patients}
             \<and> (\<forall>i<length patients.
                   patient_id (res ! i) = patient_id (patients ! \<pi> i)
                   \<and> risk_assessment (res ! i)
                     = snd (calculate_priority_score (risk_assessment (patients ! \<pi> i)) now))
             \<and> (\<forall>i j. i < j \<and> j < length patients
                      \<and> final_priority now (res ! i) = final_priority now (res ! j)
                    \<longrightarrow> \<pi> i < \<pi> j)"
    using sched by (rule schedule_permutation)
  from schedule_length [OF sched] schedule_positions [OF sched] schedule_descending [OF sched]
    perm fifo
  show ?thesis by blast
qed

section \<open>The snapshot as a rearrangement of the stored assessments\<close>

lemma make_queue_items_nth:
  "make_queue_items n assessments = Inr items \<Longrightarrow> k < length assessments \<Longrightarrow>
     \<exists>ts. timestamp (assessments ! k) = Some ts
        \<and> patient_id (items ! k) = make_patient_id (n + k) ts
        \<and> risk_assessment (items ! k) = assessments ! k"
proof (induction assessments arbitrary: n items k)
  case Nil
  then show ?case by simp
next
  case (Cons a as)
  from Cons.prems(1) obtain ts rest where ts: "timestamp a = Some ts"
    and rest: "make_queue_items (Suc n) as = Inr rest"
    and items: "items = \<lparr>patient_id = make_patient_id n ts, risk_assessment = a,
                     queue_position = 0, estimated_wait_time = 0, rl_adjustment = 0,
                     rl_state = None, rl_action = None\<rparr> # rest"
    by (cases "timestamp a"; cases "make_queue_items (Suc n) as") auto
  show ?case
  proof (cases k)
    case 0
    with ts show ?thesis unfolding items by simp
  next
    case (Suc k')
    with Cons.prems(2) have "k' < length as" by simp
    from Cons.IH [OF rest this] show ?thesis unfolding items Suc by simp
  qed
qed

lemma manage_parts:
  assumes "manage_patient_queue assessments file now g = Inr (q, g')"
  obtains items res self' where "make_queue_items 0 assessments = Inr items"
    and "schedule_patients_with_rl (rl_scheduler (init_manager file))
           (map (\<lambda>p. p\<lparr>risk_assessment :=
                        snd (calculate_priority_score (risk_assessment p) now)\<rparr>) items)
           (make_queue_info items) now g = Inr (res, self', g')"
    and "q = update_positions_and_waits res"
  using assms
  by (auto simp add: manage_patient_queue_def calculate_dynamic_priority_def Let_def
      split: sum.splits)

lemma final_priority_ignores_wait:
  "final_priority now (p\<lparr>queue_position := x, estimated_wait_time := w\<rparr>) = final_priority now p"
  by (simp add: final_priority_unfold)

lemma snapshot_stable:
  assumes man: "manage_patient_queue assessments file now g = Inr (q, g')"
  shows "length q = length assessments
       \<and> map queue_position q = map (\<lambda>i. int i + 1) [0..<length assessments]
       \<and> sorted_wrt (\<ge>) (map (final_priority now) q)
       \<and> (\<exists>\<pi>. bij_betw \<pi> {..<length assessments} {..<length assessments}
             \<and> (\<forall>i<length assessments. \<exists>ts.
                   timestamp (assessments ! \<pi> i) = Some ts
                   \<and> patient_id (q ! i) = make_patient_id (\<pi> i) ts
                   \<and> risk_assessment (q ! i)
                     = (assessments ! \<pi> i)\<lparr>priority_score :=
                          fst (calculate_priority_score (assessments ! \<pi> i) now)\<rparr>)
             \<and> (\<forall>i j. i < j \<and> j < length assessments
                      \<and> final_priority now (q ! i) = final_priority now (q ! j)
                    \<longrightarrow> \<pi> i < \<pi> j))
       \<and> (sorted_wrt admitted_not_after assessments \<longrightarrow>
            (\<forall>i j. i < j \<and> j < length assessments
                   \<and> final_priority now (q ! i) = final_priority now (q ! j)
                 \<longrightarrow> created_not_after (q ! i) (q ! j)))"
proof -
  let ?N = "length assessments"
  from man obtain items res self' where items: "make_queue_items 0 assessments = Inr items"
    and sched: "schedule_patients_with_rl (rl_scheduler (init_manager file))
           (map (\<lambda>p. p\<lparr>risk_assessment :=
                        snd (calculate_priority_score (risk_assessment p) now)\<rparr>) items)
           (make_queue_info items) now g = Inr (res, self', g')"
    and q: "q = update_positions_and_waits res"
    by (rule manage_parts)
  let ?ps = "map (\<lambda>p. p\<lparr>risk_assessment :=
                     snd (calculate_priority_score (risk_assessment p) now)\<rparr>) items"
  have "map risk_assessment items = assessments"
    using make_queue_items_assessments [OF items] by (rule conjunct1)
  then have "length (map risk_assessment items) = ?N" by (simp only:)
  then have len_items: "length items = ?N" by simp
  then have len_ps: "length ?ps = ?N" by simp
  have len_res: "length res = ?N" using schedule_length [OF sched] len_ps by simp
  have len: "length q = ?N" unfolding q by (simp add: length_update_positions_and_waits len_res)
  have nth_q: "q ! i = (res ! i)\<lparr>queue_position := int i + 1,
                  estimated_wait_time := calculate_estimated_wait_time (res ! i) (int i)\<rparr>"
    if "i < ?N" for i
    unfolding q using that len_res by (simp add: nth_update_positions_and_waits)
  have pos: "map queue_position q = map (\<lambda>i. int i + 1) [0..<?N]"
    by (rule nth_equalityI) (simp_all add: len nth_q)
  have prio: "final_priority now (q ! i) = final_priority now (res ! i)" if "i < ?N" for i
    unfolding nth_q [OF that] by (rule final_priority_ignores_wait)
  have "map (final_priority now) q = map (final_priority now) res"
    by (rule nth_equalityI) (simp_all add: len len_res prio)
  then have sorted: "sorted_wrt (\<ge>) (map (final_priority now) q)"
    using schedule_descending [OF sched] by (simp only:)
  from schedule_permutation [OF sched] obtain \<pi> where
    bij0: "bij_betw \<pi> {..<length ?ps} {..<length ?ps}"
    and entry0: "\<forall>i<length ?ps.
                 patient_id (res ! i) = patient_id (?ps ! \<pi> i)
                 \<and> risk_assessment (res ! i)
                   = snd (calculate_priority_score (risk_assessment (?ps ! \<pi> i)) now)"
    and stable0: "\<forall>i j. i < j \<and> j < length ?ps
                    \<and> final_priority now (res ! i) = final_priority now (res ! j)
                  \<longrightarrow> \<pi> i < \<pi> j"
    by blast
  from bij0 have bij: "bij_betw \<pi> {..<?N} {..<?N}" unfolding len_ps .
  have range: "\<pi> i < ?N" if "i < ?N" for i
    using bij that by (auto simp add: bij_betw_def)
  have entry: "\<exists>ts. timestamp (assessments ! \<pi> i) = Some ts
                   \<and> patient_id (q ! i) = make_patient_id (\<pi> i) ts
                   \<and> risk_assessment (q ! i)
                     = (assessments ! \<pi> i)\<lparr>priority_score :=
                          fst (calculate_priority_score (assessments ! \<pi> i) now)\<rparr>"
    if i: "i < ?N" for i
  proof -
    from make_queue_items_nth [OF items range [OF i]] obtain ts where
      ts: "timestamp (assessments ! \<pi> i) = Some ts"
      and id: "patient_id (items ! \<pi> i) = make_patient_id (\<pi> i) ts"
      and ra: "risk_assessment (items ! \<pi> i) = assessments ! \<pi> i"
      by auto
    have p: "?ps ! \<pi> i = (items ! \<pi> i)\<lparr>risk_assessment :=
               snd (calculate_priority_score (assessments ! \<pi> i) now)\<rparr>"
      using range [OF i] len_items ra by simp
    from entry0 i len_ps have
      e1: "patient_id (res ! i) = patient_id (?ps ! \<pi> i)"
      and e2: "risk_assessment (res ! i)
                 = snd (calculate_priority_score (risk_assessment (?ps ! \<pi> i)) now)"
      by simp_all
    have "patient_id (q ! i) = make_patient_id (\<pi> i) ts"
      unfolding nth_q [OF i] using e1 id unfolding p by simp
    moreover have "risk_assessment (q ! i)
        = (assessments ! \<pi> i)\<lparr>priority_score :=
             fst (calculate_priority_score (assessments ! \<pi> i) now)\<rparr>"
    proof -
      have ra_p: "risk_assessment (?ps ! \<pi> i)
                    = snd (calculate_priority_score (assessments ! \<pi> i) now)"
        unfolding p by simp
      have "risk_assessment (q ! i) = risk_assessment (res ! i)"
        unfolding nth_q [OF i] by simp
      also have "\<dots> = snd (calculate_priority_score
                           (snd (calculate_priority_score (assessments ! \<pi> i) now)) now)"
        unfolding e2 ra_p ..
      also have "\<dots> = snd (calculate_priority_score (assessments ! \<pi> i) now)"
        by (rule scoring_idem)
      also have "\<dots> = (assessments ! \<pi> i)\<lparr>priority_score :=
                         fst (calculate_priority_score (assessments ! \<pi> i) now)\<rparr>"
        using ts by (rule scored_stamped)
      finally show ?thesis .
    qed
    ultimately show ?thesis using ts by blast
  qed
  have stable: "\<pi> i < \<pi> j"
    if h: "i < j \<and> j < ?N \<and> final_priority now (q ! i) = final_priority now (q ! j)" for i j
  proof -
    from h have i: "i < ?N" and j: "j < ?N" by simp_all
    from h have "final_priority now (res ! i) = final_priority now (res ! j)"
      unfolding prio [OF i] prio [OF j] by simp
    with h stable0 show ?thesis unfolding len_ps by blast
  qed
  have fifo: "created_not_after (q ! i) (q ! j)"
    if inp: "sorted_wrt admitted_not_after assessments"
      and h: "i < j \<and> j < ?N \<and> final_priority now (q ! i) = final_priority now (q ! j)" for i j
  proof -
    from h have i: "i < ?N" and j: "j < ?N" by simp_all
    from h have less: "\<pi> i < \<pi> j" by (rule stable)
    from inp less range [OF j]
    have a: "admitted_not_after (assessments ! \<pi> i) (assessments ! \<pi> j)"
      by (rule sorted_wrt_nth_less)
    from entry [OF i] have ti: "timestamp (risk_assessment (q ! i)) = timestamp (assessments ! \<pi> i)"
      by auto
    from entry [OF j] have tj: "timestamp (risk_assessment (q ! j)) = timestamp (assessments ! \<pi> j)"
      by auto
    from a show ?thesis
      unfolding created_not_after_admitted admitted_not_after_def ti tj .
  qed
  have perm: "\<exists>\<pi>. bij_betw \<pi> {..<?N} {..<?N}
             \<and> (\<forall>i<?N. \<exists>ts.
                   timestamp (assessments ! \<pi> i) = Some ts
                   \<and> patient_id (q ! i) = make_patient_id (\<pi> i) ts
                   \<and> risk_assessment (q ! i)
                     = (assessments ! \<pi> i)\<lparr>priority_score :=
                          fst (calculate_priority_score (assessments ! \<pi> i) now)\<rparr>)
             \<and> (\<forall>i j. i < j \<and> j < ?N
                      \<and> final_priority now (q ! i) = final_priority now (q ! j)
                    \<longrightarrow> \<pi> i < \<pi> j)"
  proof (rule exI [of _ \<pi>], intro conjI allI impI)
    show "bij_betw \<pi> {..<?N} {..<?N}" by (rule bij)
    show "\<exists>ts. timestamp (assessments ! \<pi> i) = Some ts
             \<and> patient_id (q ! i) = make_patient_id (\<pi> i) ts
             \<and> risk_assessment (q ! i)
               = (assessments ! \<pi> i)\<lparr>priority_score :=
                    fst (calculate_priority_score (assessments ! \<pi> i) now)\<rparr>"
      if "i < ?N" for i using that by (rule entry)
    show "\<pi> i < \<pi> j"
      if "i < j \<and> j < ?N \<and> final_priority now (q ! i) = final_priority now (q ! j)" for i j
      using that by (rule stable)
  qed
  from len pos sorted perm fifo show ?thesis by blast
qed


text \<open>
  Claim C2, amended. Whenever \<^verbatim>\<open>schedule_patients_with_rl\<close> returns, its result is a
  rearrangement \<open>\<pi>\<close> of the input list: the entry at index \<open>i\<close> has the identifier of the
  input entry at index \<open>\<pi> i\<close> and that entry's assessment, scored at the time of the call.
  The positions are 1, \<dots>, N in list order, the entries are in descending order of final
  priority (the score, plus the adjustment for a low label only), and the sort has no
  second key: entries of equal final priority keep the order of the input list. So if the
  input list is in order of creation, entries of equal final priority are in order of
  creation too. The snapshot of \<^verbatim>\<open>manage_patient_queue\<close> is such a schedule of the stored
  assessments in stored order: the entry at index \<open>i\<close> is the stored assessment number
  \<open>\<pi> i\<close>, named \<^verbatim>\<open>patient_{\<pi> i + 1}_{timestamp}\<close>, with its score written.
\<close>

theorem schedule_sorted_positions:
  "(schedule_patients_with_rl self patients qi now g = Inr (res, self', g') \<longrightarrow>
      length res = length patients
      \<and> map queue_position res = map (\<lambda>i. int i + 1) [0..<length patients]
      \<and> sorted_wrt (\<ge>) (map (final_priority now) res)
      \<and> (\<exists>\<pi>. bij_betw \<pi> {..<length patients} {..<length patients}
            \<and> (\<forall>i<length patients.
                  patient_id (res ! i) = patient_id (patients ! \<pi> i)
                  \<and> risk_assessment (res ! i)
                    = snd (calculate_priority_score (risk_assessment (patients ! \<pi> i)) now))
            \<and> (\<forall>i j. i < j \<and> j < length patients
                     \<and> final_priority now (res ! i) = final_priority now (res ! j)
                   \<longrightarrow> \<pi> i < \<pi> j))
      \<and> (sorted_wrt created_not_after patients \<longrightarrow>
           (\<forall>i j. i < j \<and> j < length patients
                  \<and> final_priority now (res ! i) = final_priority now (res ! j)
                \<longrightarrow> created_not_after (res ! i) (res ! j))))
   \<and> (manage_patient_queue assessments file now h = Inr (q, h') \<longrightarrow>
      length q = length assessments
      \<and> map queue_position q = map (\<lambda>i. int i + 1) [0..<length assessments]
      \<and> sorted_wrt (\<ge>) (map (final_priority now) q)
      \<and> (\<exists>\<pi>. bij_betw \<pi> {..<length assessments} {..<length assessments}
            \<and> (\<forall>i<length assessments. \<exists>ts.
                  timestamp (assessments ! \<pi> i) = Some ts
                  \<and> patient_id (q ! i) = make_patient_id (\<pi> i) ts
                  \<and> risk_assessment (q ! i)
                    = (assessments ! \<pi> i)\<lparr>priority_score :=
                         fst (calculate_priority_score (assessments ! \<pi> i) now)\<rparr>)
            \<and> (\<forall>i j. i < j \<and> j < length assessments
                     \<and> final_priority now (q ! i) = final_priority now (q ! j)
                   \<longrightarrow> \<pi> i < \<pi> j))
      \<and> (sorted_wrt admitted_not_after assessments \<longrightarrow>
           (\<forall>i j. i < j \<and> j < length assessments
                  \<and> final_priority now (q ! i) = final_priority now (q ! j)
                \<longrightarrow> created_not_after (q ! i) (q ! j))))"
proof (rule conjI; rule impI)
  assume "schedule_patients_with_rl self patients qi now g = Inr (res, self', g')"
  then show "length res = length patients
      \<and> map queue_position res = map (\<lambda>i. int i + 1) [0..<length patients]
      \<and> sorted_wrt (\<ge>) (map (final_priority now) res)
      \<and> (\<exists>\<pi>. bij_betw \<pi> {..<length patients} {..<length patients}
            \<and> (\<forall>i<length patients.
                  patient_id (res ! i) = patient_id (patients ! \<pi> i)
                  \<and> risk_assessment (res ! i)
                    = snd (calculate_priority_score (risk_assessment (patients ! \<pi> i)) now))
            \<and> (\<forall>i j. i < j \<and> j < length patients
                     \<and> final_priority now (res ! i) = final_priority now (res ! j)
                   \<longrightarrow> \<pi> i < \<pi> j))
      \<and> (sorted_wrt created_not_after patients \<longrightarrow>
           (\<forall>i j. i < j \<and> j < length patients
                  \<and> final_priority now (res ! i) = final_priority now (res ! j)
                \<longrightarrow> created_not_after (res ! i) (res ! j)))"
    by (rule schedule_stable)
next
  assume "manage_patient_queue assessments file now h = Inr (q, h')"
  then show "length q = length assessments
      \<and> map queue_position q = map (\<lambda>i. int i + 1) [0..<length assessments]
      \<and> sorted_wrt (\<ge>) (map (final_priority now) q)
      \<and> (\<exists>\<pi>. bij_betw \<pi> {..<length assessments} {..<length assessments}
            \<and> (\<forall>i<length assessments. \<exists>ts.
                  timestamp (assessments ! \<pi> i) = Some ts
                  \<and> patient_id (q ! i) = make_patient_id (\<pi> i) ts
                  \<and> risk_assessment (q ! i)
                    = (assessments ! \<pi> i)\<lparr>priority_score :=
                         fst (calculate_priority_score (assessments ! \<pi> i) now)\<rparr>)
            \<and> (\<forall>i j. i < j \<and> j < length assessments
                     \<and> final_priority now (q ! i) = final_priority now (q ! j)
                   \<longrightarrow> \<pi> i < \<pi> j))
      \<and> (sorted_wrt admitted_not_after assessments \<longrightarrow>
           (\<forall>i j. i < j \<and> j < length assessments
                  \<and> final_priority now (q ! i) = final_priority now (q ! j)
                \<longrightarrow> created_not_after (q ! i) (q ! j)))"
    by (rule snapshot_stable)
qed

text \<open>
  Claim C2, as stated, fails when the list handed to the scheduler is not in order of
  creation, as the already sorted queue that \<^verbatim>\<open>get_next_patient\<close> of
  \<^verbatim>\<open>main.py\<close> schedules a second time need not be: of two entries with the same final
  priority 0, the one created at 600 is given position 1 and the one created at 0
  position 2.
\<close>

theorem schedule_fifo_counterexample:
  "schedule_view 1200 (schedule_patients_with_rl (init_scheduler NoFile) [pq_tie_b, pq_tie_a]
       (make_queue_info [pq_tie_b, pq_tie_a]) 1200 rng_greedy)
     = Inr [(''patient_2_600'', 1, Some 600, 0), (''patient_1_0'', 2, Some 0, 0)]"
  by code_simp

lemma tie_snapshot_view:
  "snapshot_view 1200 (manage_patient_queue ra_tie NoFile 1200 rng_greedy)
     = Inr [(1, 0), (2, 0)]"
  by code_simp

lemma snapshot_view_entries:
  assumes "snapshot_view now r = Inr v"
  obtains q g' where "r = Inr (q, g')" and "queue_entries r = q"
    and "map (\<lambda>p. (queue_position p, final_priority now p)) q = v"
  using assms by (cases r) (auto simp add: snapshot_view_def queue_entries_def)

lemma tie_identifiers:
  "make_patient_id 0 0 = ''patient_1_0''" "make_patient_id 1 600 = ''patient_2_600''"
  by code_simp+

lemma two_in_order:
  assumes "bij_betw \<pi> {..<(2::nat)} {..<2}" and "\<pi> 0 < \<pi> 1"
  shows "\<pi> 0 = 0" and "\<pi> 1 = (1::nat)"
proof -
  have "\<pi> 1 \<in> \<pi> ` {..<2}" by (rule imageI) simp
  also have "\<pi> ` {..<2} = {..<2}" using assms(1) by (simp only: bij_betw_def)
  finally have "\<pi> 1 < 2" by simp
  with assms(2) show "\<pi> 0 = 0" and "\<pi> 1 = 1" by simp_all
qed

lemma two_entries: "length xs = 2 \<Longrightarrow> map F xs = [F (xs ! 0), F (xs ! 1)]"
  by (cases xs; cases "tl xs") auto

text \<open>
  Two entries of equal final priority, given in order of creation, keep that order, in
  the schedule and in the snapshot.
\<close>

theorem schedule_sorted_positions_witness:
  "map patient_id (schedule_entries
       (schedule_patients_with_rl (init_scheduler NoFile) [pq_tie_a, pq_tie_b]
          (make_queue_info [pq_tie_a, pq_tie_b]) 1200 rng_greedy))
     = [''patient_1_0'', ''patient_2_600'']
   \<and> map patient_id (queue_entries (manage_patient_queue ra_tie NoFile 1200 rng_greedy))
     = [''patient_1_0'', ''patient_2_600'']"
proof
  let ?r = "schedule_patients_with_rl (init_scheduler NoFile) [pq_tie_a, pq_tie_b]
              (make_queue_info [pq_tie_a, pq_tie_b]) 1200 rng_greedy"
  from tie_ab_view obtain res self' g' where r: "?r = Inr (res, self', g')"
    and e: "schedule_entries ?r = res"
    and v: "map (\<lambda>p. (patient_id p, queue_position p, timestamp (risk_assessment p),
                       final_priority 1200 p)) res
            = [(''patient_1_0'', 1, Some 0, 0), (''patient_2_600'', 2, Some 600, 0)]"
    by (rule schedule_view_entries)
  note m = map_eq_two [OF v]
  from m(2,3) have tie: "final_priority 1200 (res ! 0) = final_priority 1200 (res ! 1)" by simp
  note T = schedule_sorted_positions [THEN conjunct1, THEN mp, OF r]
  from T obtain \<pi> where bij: "bij_betw \<pi> {..<length [pq_tie_a, pq_tie_b]}
                                {..<length [pq_tie_a, pq_tie_b]}"
    and entry: "\<forall>i<length [pq_tie_a, pq_tie_b].
                  patient_id (res ! i) = patient_id ([pq_tie_a, pq_tie_b] ! \<pi> i)
                  \<and> risk_assessment (res ! i)
                    = snd (calculate_priority_score
                             (risk_assessment ([pq_tie_a, pq_tie_b] ! \<pi> i)) 1200)"
    and stable: "\<forall>i j. i < j \<and> j < length [pq_tie_a, pq_tie_b]
                     \<and> final_priority 1200 (res ! i) = final_priority 1200 (res ! j)
                   \<longrightarrow> \<pi> i < \<pi> j"
    by blast
  from bij have bij2: "bij_betw \<pi> {..<2} {..<2}" by (simp add: numeral_2_eq_2)
  from stable [rule_format, of 0 1] tie have "\<pi> 0 < \<pi> 1" by simp
  note p = two_in_order [OF bij2 this]
  from entry [rule_format, of 0] p(1) have "patient_id (res ! 0) = ''patient_1_0''"
    by (simp add: pq_tie_a_def)
  moreover from entry [rule_format, of 1] p(2) have "patient_id (res ! 1) = ''patient_2_600''"
    by (simp add: pq_tie_b_def)
  ultimately show "map patient_id (schedule_entries ?r) = [''patient_1_0'', ''patient_2_600'']"
    unfolding e two_entries [OF m(1)] by simp
next
  let ?r = "manage_patient_queue ra_tie NoFile 1200 rng_greedy"
  from tie_snapshot_view obtain q g' where r: "?r = Inr (q, g')"
    and e: "queue_entries ?r = q"
    and v: "map (\<lambda>p. (queue_position p, final_priority 1200 p)) q = [(1, 0), (2, 0)]"
    by (rule snapshot_view_entries)
  note m = map_eq_two [OF v]
  from m(2,3) have tie: "final_priority 1200 (q ! 0) = final_priority 1200 (q ! 1)" by simp
  note T = schedule_sorted_positions [THEN conjunct2, THEN mp, OF r]
  from T obtain \<pi> where bij: "bij_betw \<pi> {..<length ra_tie} {..<length ra_tie}"
    and entry: "\<forall>i<length ra_tie. \<exists>ts.
                  timestamp (ra_tie ! \<pi> i) = Some ts
                  \<and> patient_id (q ! i) = make_patient_id (\<pi> i) ts
                  \<and> risk_assessment (q ! i)
                    = (ra_tie ! \<pi> i)\<lparr>priority_score :=
                         fst (calculate_priority_score (ra_tie ! \<pi> i) 1200)\<rparr>"
    and stable: "\<forall>i j. i < j \<and> j < length ra_tie
                     \<and> final_priority 1200 (q ! i) = final_priority 1200 (q ! j)
                   \<longrightarrow> \<pi> i < \<pi> j"
    by blast
  have len: "length ra_tie = 2" by (simp add: ra_tie_def)
  from bij have bij2: "bij_betw \<pi> {..<2} {..<2}" unfolding len .
  from stable [rule_format, of 0 1] tie have "\<pi> 0 < \<pi> 1" unfolding len by simp
  note p = two_in_order [OF bij2 this]
  from entry [rule_format, of 0] p(1) have "patient_id (q ! 0) = make_patient_id 0 0"
    unfolding len by (auto simp add: ra_tie_def)
  moreover from entry [rule_format, of 1] p(2) have "patient_id (q ! 1) = make_patient_id 1 600"
    unfolding len by (auto simp add: ra_tie_def)
  ultimately show "map patient_id (queue_entries ?r) = [''patient_1_0'', ''patient_2_600'']"
    unfolding e two_entries [OF m(1)] tie_identifiers by simp
qed

end
